theory Spec2Isabelle
  imports Main
begin

section \<open>The BLE diagnostics screen of EspWifiReactTest\<close>

text \<open>
  A shallow embedding of \<^verbatim>\<open>app/(tabs)/diagnostics.tsx\<close>. The React component
  \<^verbatim>\<open>DiagnosticsScreen\<close> holds fourteen \<^verbatim>\<open>useState\<close> slots (a status and a log per
  step), two device lists, the adapter state and two refs. Every handler of the component
  is a function from the state to the new state. A handler that suspends (a promise, a
  subscription callback, a timer) is split where it suspends: the part that runs when the
  button is pressed, and one function for each closure that the platform calls later. What
  the platform answers (the outcome of a promise, the argument of a callback) is an argument
  of the function that consumes it.
\<close>

subsection \<open>Strings\<close>

text \<open>
  \<^verbatim>\<open>String.prototype.toUpperCase\<close> on the ASCII letters; the UUID strings compared
  by the screen are ASCII.
\<close>

definition toUpperChar :: "char \<Rightarrow> char" where
  "toUpperChar c =
     (case map_of (zip ''abcdefghijklmnopqrstuvwxyz'' ''ABCDEFGHIJKLMNOPQRSTUVWXYZ'') c of
        Some u \<Rightarrow> u
      | None \<Rightarrow> c)"

definition toUpperCase :: "string \<Rightarrow> string" where
  "toUpperCase str = map toUpperChar str"

definition startsWith :: "string \<Rightarrow> string \<Rightarrow> bool" where
  "startsWith str pre = (take (length pre) str = pre)"

text \<open>\<^verbatim>\<open>Array.prototype.join\<close>.\<close>

fun join :: "string list \<Rightarrow> string \<Rightarrow> string" where
  "join [] sep = []"
| "join [x] sep = x"
| "join (x # y # ys) sep = x @ sep @ join (y # ys) sep"

text \<open>A number inside a template literal: decimal digits, a minus sign when negative.\<close>

definition digit :: "nat \<Rightarrow> char" where
  "digit d = ''0123456789'' ! d"

fun showNat :: "nat \<Rightarrow> string" where
  "showNat n = (if n < 10 then [digit n] else showNat (n div 10) @ [digit (n mod 10)])"

declare showNat.simps [simp del]

definition showInt :: "int \<Rightarrow> string" where
  "showInt i = (if i < 0 then CHR ''-'' # showNat (nat (- i)) else showNat (nat i))"

subsection \<open>Constants\<close>

definition SERVICE_UUID :: string where
  "SERVICE_UUID = ''0000FFE0-0000-1000-8000-00805F9B34FB''"

definition STATUS_CHAR_UUID :: string where
  "STATUS_CHAR_UUID = ''0000FFE1-0000-1000-8000-00805F9B34FB''"

definition COMMAND_CHAR_UUID :: string where
  "COMMAND_CHAR_UUID = ''0000FFE2-0000-1000-8000-00805F9B34FB''"

definition RESPONSE_CHAR_UUID :: string where
  "RESPONSE_CHAR_UUID = ''0000FFE3-0000-1000-8000-00805F9B34FB''"

definition DEVICE_NAME_PREFIX :: string where
  "DEVICE_NAME_PREFIX = ''ESP32-WiFi-''"

subsection \<open>Data\<close>

datatype StepStatus = Pending | Running | Pass | Fail

record LogEntry =
  time :: string
  message :: string

record DiscoveredDevice =
  entry_id :: string
  entry_name :: "string option"
  entry_rssi :: "int option"
  entry_serviceUUIDs :: "string list option"

text \<open>
  What the screen reads of the library's types: the \<^verbatim>\<open>State\<close> enum, a
  \<^verbatim>\<open>BleError\<close> (or any thrown error: \<^verbatim>\<open>errorCode\<close> is absent on a plain
  \<^verbatim>\<open>Error\<close>), a \<^verbatim>\<open>Device\<close>, a \<^verbatim>\<open>Characteristic\<close> and a
  \<^verbatim>\<open>Service\<close>. A promise is modelled by its outcome, \<open>Inl\<close> the rejection.
\<close>

datatype AdapterState = Unknown | Resetting | Unsupported | Unauthorized | PoweredOff | PoweredOn

fun showState :: "AdapterState \<Rightarrow> string" where
  "showState Unknown = ''Unknown''"
| "showState Resetting = ''Resetting''"
| "showState Unsupported = ''Unsupported''"
| "showState Unauthorized = ''Unauthorized''"
| "showState PoweredOff = ''PoweredOff''"
| "showState PoweredOn = ''PoweredOn''"

record BleError =
  errorCode :: "int option"
  err_message :: string

record Device =
  dev_id :: string
  dev_name :: "string option"
  dev_localName :: "string option"
  dev_rssi :: "int option"
  dev_serviceUUIDs :: "string list option"
  dev_mtu :: nat

record Characteristic =
  char_uuid :: string
  isReadable :: bool
  isWritableWithResponse :: bool
  isWritableWithoutResponse :: bool
  isNotifiable :: bool
  isIndicatable :: bool

record Service =
  svc_uuid :: string
  characteristics :: "BleError + Characteristic list"

text \<open>
  The state of the component. \<open>bleManagerRef\<close> holds the identifier of the
  \<^verbatim>\<open>BleManager\<close> instance. The fields after \<open>bleState\<close> are not variables of the
  component: \<open>now\<close> is what \<^verbatim>\<open>timestamp()\<close> returns; the others record what the
  component has asked of the platform and what the platform still owes it.
  \<^item> \<open>sharedInstance\<close>: the instance the library holds as its singleton, if any;
    \<open>nextManager\<close>: the identifier of the next instance the library makes;
  \<^item> \<open>tearingDown\<close>: the instances whose \<^verbatim>\<open>destroy()\<close> was called and whose promise
    has not resolved yet; \<open>destroyed\<close>: those whose teardown has completed;
  \<^item> \<open>scanning\<close>: a device scan was started and not stopped;
  \<^item> \<open>subs\<close>: the state-change subscriptions made by \<^verbatim>\<open>onStateChange\<close> whose
    \<^verbatim>\<open>remove()\<close> has not been called; \<open>removeCalls\<close>: every call of
    \<^verbatim>\<open>remove()\<close>, in order; \<open>nextSub\<close>: the identifier of the next subscription;
  \<^item> \<open>pendingQueries\<close>: the \<^verbatim>\<open>manager.state()\<close> promises not resolved yet, each with
    the value of \<^verbatim>\<open>stateStatus\<close> that its continuation closes over;
  \<^item> \<open>pendingTimers\<close>: the ten-second timers of Step 2 not fired yet, keyed by the
    subscription they release, each with the \<^verbatim>\<open>stateStatus\<close> of its closure.
  The \<^verbatim>\<open>expanded\<close> slot (which cards are unfolded) and \<^verbatim>\<open>scanSubscriptionRef\<close>
  (never assigned) take no part in any step.
\<close>

record state =
  bleManagerRef :: "nat option"
  connectedDeviceRef :: "Device option"
  createStatus :: StepStatus
  stateStatus :: StepStatus
  scanStatus :: StepStatus
  filteredScanStatus :: StepStatus
  connectStatus :: StepStatus
  discoverStatus :: StepStatus
  validateStatus :: StepStatus
  createLogs :: "LogEntry list"
  stateLogs :: "LogEntry list"
  scanLogs :: "LogEntry list"
  filteredScanLogs :: "LogEntry list"
  connectLogs :: "LogEntry list"
  discoverLogs :: "LogEntry list"
  validateLogs :: "LogEntry list"
  devices :: "DiscoveredDevice list"
  filteredDevices :: "DiscoveredDevice list"
  bleState :: AdapterState
  now :: string
  sharedInstance :: "nat option"
  nextManager :: nat
  tearingDown :: "nat list"
  destroyed :: "nat list"
  scanning :: bool
  subs :: "nat list"
  removeCalls :: "nat list"
  nextSub :: nat
  pendingQueries :: "(nat \<times> StepStatus) list"
  nextQuery :: nat
  pendingTimers :: "(nat \<times> StepStatus) list"

text \<open>The state after the first render, before the mount effect runs.\<close>

definition initial :: state where
  "initial =
     \<lparr> bleManagerRef = None, connectedDeviceRef = None,
       createStatus = Pending, stateStatus = Pending, scanStatus = Pending,
       filteredScanStatus = Pending, connectStatus = Pending, discoverStatus = Pending,
       validateStatus = Pending,
       createLogs = [], stateLogs = [], scanLogs = [], filteredScanLogs = [],
       connectLogs = [], discoverLogs = [], validateLogs = [],
       devices = [], filteredDevices = [], bleState = Unknown, now = [],
       sharedInstance = None, nextManager = 0, tearingDown = [], destroyed = [],
       scanning = False,
       subs = [], removeCalls = [], nextSub = 0,
       pendingQueries = [], nextQuery = 0, pendingTimers = [] \<rparr>"

text \<open>
  \<^verbatim>\<open>addLog(setter, message)\<close> calls \<^verbatim>\<open>setter((prev) => [...prev, {time, message}])\<close>.
  The setter of a slot is the update function of the record field.
\<close>

definition addLog ::
  "((LogEntry list \<Rightarrow> LogEntry list) \<Rightarrow> state \<Rightarrow> state) \<Rightarrow> string \<Rightarrow> state \<Rightarrow> state" where
  "addLog setter msg s = setter (\<lambda>prev. prev @ [\<lparr> time = now s, message = msg \<rparr>]) s"

fun addLogs ::
  "((LogEntry list \<Rightarrow> LogEntry list) \<Rightarrow> state \<Rightarrow> state) \<Rightarrow> string list \<Rightarrow> state \<Rightarrow> state" where
  "addLogs setter [] s = s"
| "addLogs setter (m # ms) s = addLogs setter ms (addLog setter m s)"

subsection \<open>Step 7: validate the expected characteristics\<close>

text \<open>The \<^verbatim>\<open>expected\<close> array of \<^verbatim>\<open>runValidateChars\<close>: UUID and display name.\<close>

definition expected :: "(string \<times> string) list" where
  "expected =
     [(STATUS_CHAR_UUID, ''Status (FFE1)''),
      (COMMAND_CHAR_UUID, ''Command (FFE2)''),
      (RESPONSE_CHAR_UUID, ''Response (FFE3)'')]"

definition expectedUUIDs :: "string list" where
  "expectedUUIDs = map (\<lambda>e. toUpperCase (fst e)) expected"

text \<open>The line logged for one expected characteristic.\<close>

definition expLine :: "string list \<Rightarrow> string \<times> string \<Rightarrow> string" where
  "expLine charUUIDs exp =
     ''  '' @ (if toUpperCase (fst exp) \<in> set charUUIDs then ''FOUND'' else ''MISSING'')
       @ '': '' @ snd exp @ '' ('' @ fst exp @ '')''"

text \<open>The loop over \<^verbatim>\<open>expected\<close>: one log line each, and the flag \<^verbatim>\<open>allFound\<close>.\<close>

fun checkExpected ::
  "string list \<Rightarrow> (string \<times> string) list \<Rightarrow> bool \<times> state \<Rightarrow> bool \<times> state" where
  "checkExpected charUUIDs [] acc = acc"
| "checkExpected charUUIDs (exp # exps) (allFound, s) =
     (let found = toUpperCase (fst exp) \<in> set charUUIDs;
          s1 = addLog validateLogs_update (expLine charUUIDs exp) s
      in checkExpected charUUIDs exps (if \<not> found then False else allFound, s1))"

definition isExtra :: "Characteristic \<Rightarrow> bool" where
  "isExtra c = (toUpperCase (char_uuid c) \<notin> set expectedUUIDs)"

text \<open>
  The part of \<^verbatim>\<open>runValidateChars\<close> that runs at once: the guard on the connected
  device, then the reset of the step's own slot.
\<close>

definition runValidateChars :: "state \<Rightarrow> state" where
  "runValidateChars s =
     (case connectedDeviceRef s of
        None \<Rightarrow> (addLog validateLogs_update ''ERROR: No connected device'' s)
                  \<lparr> validateStatus := Fail \<rparr>
      | Some device \<Rightarrow>
          addLog validateLogs_update (''Looking for service '' @ SERVICE_UUID @ ''...'')
            (s \<lparr> validateStatus := Running, validateLogs := [] \<rparr>))"

text \<open>
  The body of the \<^verbatim>\<open>try\<close> after \<^verbatim>\<open>await device.services()\<close>; the argument is the
  outcome of that promise. A rejection there, or of \<^verbatim>\<open>targetService.characteristics()\<close>,
  is caught by the \<^verbatim>\<open>catch\<close> of the step.
\<close>

text \<open>The predicate of \<^verbatim>\<open>services.find\<close>.\<close>

definition isTarget :: "Service \<Rightarrow> bool" where
  "isTarget sv = (toUpperCase (svc_uuid sv) = toUpperCase SERVICE_UUID)"

definition validateCatch :: "BleError \<Rightarrow> state \<Rightarrow> state" where
  "validateCatch error s =
     (addLog validateLogs_update (''Validation FAILED: '' @ err_message error) s)
       \<lparr> validateStatus := Fail \<rparr>"

definition validateThen :: "BleError + Service list \<Rightarrow> state \<Rightarrow> state" where
  "validateThen outcome s =
     (case outcome of
        Inl error \<Rightarrow> validateCatch error s
      | Inr services \<Rightarrow>
          (case find isTarget services of
             None \<Rightarrow>
               (addLogs validateLogs_update
                  [''Service '' @ SERVICE_UUID @ '' NOT FOUND'',
                   ''Available services: '' @ join (map svc_uuid services) '', ''] s)
                 \<lparr> validateStatus := Fail \<rparr>
           | Some targetService \<Rightarrow>
               (let s1 = addLog validateLogs_update
                           ''Service found! Checking characteristics...'' s
                in case characteristics targetService of
                     Inl error \<Rightarrow> validateCatch error s1
                   | Inr chars \<Rightarrow>
                       (let charUUIDs = map (\<lambda>c. toUpperCase (char_uuid c)) chars;
                            (allFound, s2) = checkExpected charUUIDs expected (True, s1);
                            extras = filter isExtra chars;
                            s3 = (if length extras > 0
                                  then addLogs validateLogs_update
                                         (map (\<lambda>c. ''  '' @ char_uuid c) extras)
                                         (addLog validateLogs_update
                                            (CHR 0x0A # ''Extra characteristics on this service:'')
                                            s2)
                                  else s2)
                        in s3 \<lparr> validateStatus := (if allFound then Pass else Fail) \<rparr>))))"

text \<open>One whole run of Step 7: the continuation runs only when the guard let the step in.\<close>

definition validateRun :: "BleError + Service list \<Rightarrow> state \<Rightarrow> state" where
  "validateRun outcome s =
     (case connectedDeviceRef s of
        None \<Rightarrow> runValidateChars s
      | Some device \<Rightarrow> validateThen outcome (runValidateChars s))"

subsection \<open>Step 1: create the BleManager\<close>

text \<open>
  Modelled from the spec: the constructor and \<^verbatim>\<open>destroy()\<close> of the library's
  \<^verbatim>\<open>BleManager\<close> are not in the repository. The specification (section 5) says that
  teardown is asynchronous and that a handle created before the first finishes its teardown
  is a zombie bound to a destroyed native resource; the comment in
  \<^verbatim>\<open>app/provision.tsx\<close> says how: the class is a singleton, \<^verbatim>\<open>destroy()\<close> sets
  \<^verbatim>\<open>sharedInstance = null\<close> only when it has finished, and until then
  \<^verbatim>\<open>new BleManager()\<close> returns the old instance, whose native client was destroyed.
  So \<open>destroy\<close> starts the teardown of an instance, \<open>destroyResolved\<close> is the platform
  completing it, and \<open>newBleManager\<close> returns the shared instance when there is one and
  makes the next one otherwise.
\<close>

definition destroy :: "nat \<Rightarrow> state \<Rightarrow> state" where
  "destroy manager s = s \<lparr> tearingDown := tearingDown s @ [manager] \<rparr>"

definition destroyResolved :: "nat \<Rightarrow> state \<Rightarrow> state" where
  "destroyResolved manager s =
     s \<lparr> tearingDown := removeAll manager (tearingDown s),
         destroyed := destroyed s @ [manager],
         sharedInstance := (if sharedInstance s = Some manager then None else sharedInstance s) \<rparr>"

definition newBleManager :: "state \<Rightarrow> nat \<times> state" where
  "newBleManager s =
     (case sharedInstance s of
        Some old \<Rightarrow> (old, s)
      | None \<Rightarrow>
          (nextManager s,
           s \<lparr> sharedInstance := Some (nextManager s), nextManager := Suc (nextManager s) \<rparr>))"

text \<open>
  \<^verbatim>\<open>runCreateManager\<close> is synchronous: it calls \<^verbatim>\<open>destroy()\<close> on the instance of
  the ref, does not wait for the promise, and calls the constructor in the same run. The
  argument is what \<^verbatim>\<open>new BleManager()\<close> does: \<open>Inl\<close> the error it throws, \<open>Inr\<close>
  when it returns.
\<close>

definition runCreateManager :: "BleError + unit \<Rightarrow> state \<Rightarrow> state" where
  "runCreateManager ctor s =
     (let s1 = (case bleManagerRef s of
                  None \<Rightarrow> s
                | Some manager \<Rightarrow>
                    (destroy manager
                       (addLog createLogs_update
                          ''BleManager already exists, destroying first...'' s))
                      \<lparr> bleManagerRef := None \<rparr>);
          s2 = addLog createLogs_update ''Creating new BleManager()...''
                 (s1 \<lparr> createStatus := Running, createLogs := [] \<rparr>)
      in case ctor of
           Inr _ \<Rightarrow>
             (case newBleManager s2 of
                (manager, s3) \<Rightarrow>
                  (addLog createLogs_update ''BleManager created successfully''
                     (s3 \<lparr> bleManagerRef := Some manager \<rparr>))
                    \<lparr> createStatus := Pass \<rparr>)
         | Inl error \<Rightarrow>
             (addLog createLogs_update (''FAILED: '' @ err_message error) s2)
               \<lparr> createStatus := Fail \<rparr>)"

subsection \<open>Step 2: the adapter state\<close>

text \<open>The dash of the messages \<^verbatim>\<open>No BleManager - run Step 1 first\<close>, U+2014 in UTF-8.\<close>

definition emDash :: string where
  "emDash = [CHR 0xE2, CHR 0x80, CHR 0x94]"

text \<open>
  \<^verbatim>\<open>runCheckState\<close> is made by \<^verbatim>\<open>useCallback(..., [addLog, stateStatus])\<close>: the
  identifier \<^verbatim>\<open>stateStatus\<close> inside it, and inside the closures it creates, is the
  constant of the render that made the callback. Calling \<^verbatim>\<open>setStateStatus\<close> does not
  change it. It is the first argument here, \<open>closureStatus\<close>.
\<close>

definition runCheckState :: "StepStatus \<Rightarrow> state \<Rightarrow> state" where
  "runCheckState closureStatus s =
     (case bleManagerRef s of
        None \<Rightarrow>
          (addLog stateLogs_update
             (''ERROR: No BleManager '' @ emDash @ '' run Step 1 first'') s)
            \<lparr> stateStatus := Fail \<rparr>
      | Some manager \<Rightarrow>
          (addLog stateLogs_update ''Checking BLE adapter state...''
             (s \<lparr> stateStatus := Running, stateLogs := [] \<rparr>))
            \<lparr> pendingQueries := pendingQueries s @ [(nextQuery s, closureStatus)],
              nextQuery := Suc (nextQuery s) \<rparr>)"

text \<open>\<^verbatim>\<open>sub.remove()\<close>.\<close>

definition remove :: "nat \<Rightarrow> state \<Rightarrow> state" where
  "remove sub s = s \<lparr> subs := removeAll sub (subs s), removeCalls := removeCalls s @ [sub] \<rparr>"

text \<open>
  The continuation of \<^verbatim>\<open>manager.state()\<close>. When the adapter is not on, it subscribes
  and starts the timer; both closures get the same \<open>closureStatus\<close>.
\<close>

definition stateThen :: "StepStatus \<Rightarrow> AdapterState \<Rightarrow> state \<Rightarrow> state" where
  "stateThen closureStatus st s =
     (let s1 = addLog stateLogs_update (''Current state: '' @ showState st)
                 (s \<lparr> bleState := st \<rparr>)
      in if st = PoweredOn then s1 \<lparr> stateStatus := Pass \<rparr>
         else (addLog stateLogs_update
                 (''Waiting for state change (currently '' @ showState st @ '')...'') s1)
                \<lparr> subs := subs s @ [nextSub s],
                  pendingTimers := pendingTimers s @ [(nextSub s, closureStatus)],
                  nextSub := Suc (nextSub s) \<rparr>)"

text \<open>The listener given to \<^verbatim>\<open>onStateChange\<close>, for the subscription \<open>sub\<close>.\<close>

definition stateChangeCb :: "nat \<Rightarrow> AdapterState \<Rightarrow> state \<Rightarrow> state" where
  "stateChangeCb sub newState s =
     (let s1 = addLog stateLogs_update (''State changed to: '' @ showState newState)
                 (s \<lparr> bleState := newState \<rparr>)
      in if newState = PoweredOn then remove sub (s1 \<lparr> stateStatus := Pass \<rparr>) else s1)"

text \<open>The function given to \<^verbatim>\<open>setTimeout(..., 10000)\<close>.\<close>

definition stateTimeout :: "StepStatus \<Rightarrow> nat \<Rightarrow> state \<Rightarrow> state" where
  "stateTimeout closureStatus sub s =
     (if closureStatus = Running
      then remove sub
             ((addLog stateLogs_update ''Timed out waiting for PoweredOn'' s)
                \<lparr> stateStatus := Fail \<rparr>)
      else s)"

text \<open>
  What can happen to Step 2, one event at a time. The button is bound to the callback
  of the latest render, so a press runs \<open>runCheckState\<close> with the status the slot holds at
  that moment. The platform resolves a pending query, calls the listener of a subscription
  not removed yet, or fires a pending timer; any other event changes nothing.
\<close>

datatype event =
    PressCheckState
  | StateResolved nat AdapterState
  | StateChanged nat AdapterState
  | TimeoutFired nat

fun step :: "event \<Rightarrow> state \<Rightarrow> state" where
  "step PressCheckState s = runCheckState (stateStatus s) s"
| "step (StateResolved q st) s =
     (case map_of (pendingQueries s) q of
        None \<Rightarrow> s
      | Some closureStatus \<Rightarrow>
          stateThen closureStatus st
            (s \<lparr> pendingQueries := filter (\<lambda>p. fst p \<noteq> q) (pendingQueries s) \<rparr>))"
| "step (StateChanged sub st) s =
     (if sub \<in> set (subs s) then stateChangeCb sub st s else s)"
| "step (TimeoutFired sub) s =
     (case map_of (pendingTimers s) sub of
        None \<Rightarrow> s
      | Some closureStatus \<Rightarrow>
          stateTimeout closureStatus sub
            (s \<lparr> pendingTimers := filter (\<lambda>p. fst p \<noteq> sub) (pendingTimers s) \<rparr>))"

definition run :: "event list \<Rightarrow> state \<Rightarrow> state" where
  "run evs s = fold step evs s"

text \<open>
  The events that fire a timer, and what holds of the subscriptions as long as no timer
  fires: no identifier is active twice or removed twice, none is both active and removed,
  and all were handed out already.
\<close>

definition isTimeout :: "event \<Rightarrow> bool" where
  "isTimeout ev = (case ev of TimeoutFired sub \<Rightarrow> True | _ \<Rightarrow> False)"

definition subsInv :: "state \<Rightarrow> bool" where
  "subsInv s =
     (distinct (subs s) \<and> distinct (removeCalls s)
      \<and> set (subs s) \<inter> set (removeCalls s) = {}
      \<and> (\<forall>x \<in> set (subs s) \<union> set (removeCalls s). x < nextSub s))"

subsection \<open>Steps 3 and 4: the scans\<close>

text \<open>
  The \<^verbatim>\<open>Map<string, DiscoveredDevice>\<close> named \<^verbatim>\<open>seen\<close> is local to one call of the
  handler, and shared by the scan listener and the timer that the call creates. A JavaScript
  \<^verbatim>\<open>Map\<close> iterates in insertion order, and \<^verbatim>\<open>set\<close> on a key already present
  keeps the key's place: an association list.
\<close>

type_synonym seenMap = "(string \<times> DiscoveredDevice) list"

definition mapHas :: "seenMap \<Rightarrow> string \<Rightarrow> bool" where
  "mapHas seen k = (k \<in> set (map fst seen))"

fun mapSet :: "string \<Rightarrow> DiscoveredDevice \<Rightarrow> seenMap \<Rightarrow> seenMap" where
  "mapSet k v [] = [(k, v)]"
| "mapSet k v (p # ps) = (if fst p = k then (k, v) # ps else p # mapSet k v ps)"

definition mapValues :: "seenMap \<Rightarrow> DiscoveredDevice list" where
  "mapValues seen = map snd seen"

definition mapSize :: "seenMap \<Rightarrow> nat" where
  "mapSize seen = length seen"

definition toEntry :: "Device \<Rightarrow> DiscoveredDevice" where
  "toEntry device =
     \<lparr> entry_id = dev_id device,
       entry_name = (case dev_name device of Some n \<Rightarrow> Some n | None \<Rightarrow> dev_localName device),
       entry_rssi = dev_rssi device,
       entry_serviceUUIDs = dev_serviceUUIDs device \<rparr>"

definition isEsp :: "DiscoveredDevice \<Rightarrow> bool" where
  "isEsp d = (case entry_name d of None \<Rightarrow> False | Some n \<Rightarrow> startsWith n DEVICE_NAME_PREFIX)"

definition showRssi :: "int option \<Rightarrow> string" where
  "showRssi r = (case r of None \<Rightarrow> ''null'' | Some i \<Rightarrow> showInt i)"

definition showCode :: "int option \<Rightarrow> string" where
  "showCode c = (case c of None \<Rightarrow> ''undefined'' | Some i \<Rightarrow> showInt i)"

definition nameOr :: "string option \<Rightarrow> string \<Rightarrow> string" where
  "nameOr n d = (case n of None \<Rightarrow> d | Some x \<Rightarrow> x)"

definition runUnfilteredScan :: "state \<Rightarrow> state" where
  "runUnfilteredScan s =
     (case bleManagerRef s of
        None \<Rightarrow>
          (addLog scanLogs_update
             (''ERROR: No BleManager '' @ emDash @ '' run Step 1 first'') s)
            \<lparr> scanStatus := Fail \<rparr>
      | Some manager \<Rightarrow>
          (addLog scanLogs_update ''Starting unfiltered scan for 10 seconds...''
             (s \<lparr> scanStatus := Running, scanLogs := [], devices := [] \<rparr>))
            \<lparr> scanning := True \<rparr>)"

text \<open>The listener given to \<^verbatim>\<open>startDeviceScan\<close>, called with an error or a device.\<close>

definition unfilteredScanCb ::
  "BleError option \<times> Device option \<Rightarrow> seenMap \<times> state \<Rightarrow> seenMap \<times> state" where
  "unfilteredScanCb cb acc =
     (case acc of (seen, s) \<Rightarrow>
        (case fst cb of
           Some error \<Rightarrow>
             (seen,
              (addLog scanLogs_update
                 (''Scan error: ['' @ showCode (errorCode error) @ ''] '' @ err_message error) s)
                \<lparr> scanStatus := Fail \<rparr>)
         | None \<Rightarrow>
             (case snd cb of
                None \<Rightarrow> (seen, s)
              | Some device \<Rightarrow>
                  if mapHas seen (dev_id device) then (seen, s)
                  else
                    (let entry = toEntry device;
                         seen1 = mapSet (dev_id device) entry seen;
                         s1 = s \<lparr> devices := mapValues seen1 \<rparr>
                     in (seen1,
                         addLog scanLogs_update
                           (''Found: '' @ nameOr (entry_name entry) ''(unnamed)'' @ '' | ''
                              @ dev_id device @ '' | RSSI: '' @ showRssi (entry_rssi entry)
                              @ (if isEsp entry then '' *** ESP32 ***'' else [])) s1)))))"

text \<open>The function given to \<^verbatim>\<open>setTimeout(..., 10000)\<close>: the end of the window.\<close>

definition unfilteredScanTimeout :: "seenMap \<times> state \<Rightarrow> state" where
  "unfilteredScanTimeout acc =
     (case acc of (seen, s) \<Rightarrow>
        (let s1 = addLog scanLogs_update
                    (''Scan complete. Found '' @ showNat (mapSize seen) @ '' device(s).'')
                    (s \<lparr> scanning := False \<rparr>);
             espCount = length (filter isEsp (mapValues seen));
             s2 = addLog scanLogs_update
                    (''ESP32 devices (name starts with '' @ [CHR 0x22] @ DEVICE_NAME_PREFIX
                       @ [CHR 0x22] @ ''): '' @ showNat espCount) s1
         in s2 \<lparr> scanStatus := (if mapSize seen > 0 then Pass else Fail) \<rparr>))"

definition runFilteredScan :: "state \<Rightarrow> state" where
  "runFilteredScan s =
     (case bleManagerRef s of
        None \<Rightarrow>
          (addLog filteredScanLogs_update
             (''ERROR: No BleManager '' @ emDash @ '' run Step 1 first'') s)
            \<lparr> filteredScanStatus := Fail \<rparr>
      | Some manager \<Rightarrow>
          (addLog filteredScanLogs_update
             (''Starting scan with UUID filter ['' @ SERVICE_UUID @ ''] for 10 seconds...'')
             (s \<lparr> filteredScanStatus := Running, filteredScanLogs := [],
                  filteredDevices := [] \<rparr>))
            \<lparr> scanning := True \<rparr>)"

definition filteredScanCb ::
  "BleError option \<times> Device option \<Rightarrow> seenMap \<times> state \<Rightarrow> seenMap \<times> state" where
  "filteredScanCb cb acc =
     (case acc of (seen, s) \<Rightarrow>
        (case fst cb of
           Some error \<Rightarrow>
             (seen,
              (addLog filteredScanLogs_update
                 (''Scan error: ['' @ showCode (errorCode error) @ ''] '' @ err_message error) s)
                \<lparr> filteredScanStatus := Fail \<rparr>)
         | None \<Rightarrow>
             (case snd cb of
                None \<Rightarrow> (seen, s)
              | Some device \<Rightarrow>
                  if mapHas seen (dev_id device) then (seen, s)
                  else
                    (let entry = toEntry device;
                         seen1 = mapSet (dev_id device) entry seen;
                         s1 = s \<lparr> filteredDevices := mapValues seen1 \<rparr>
                     in (seen1,
                         addLog filteredScanLogs_update
                           (''Found: '' @ nameOr (entry_name entry) ''(unnamed)'' @ '' | ''
                              @ dev_id device @ '' | RSSI: '' @ showRssi (entry_rssi entry))
                           s1)))))"

definition filteredScanTimeout :: "seenMap \<times> state \<Rightarrow> state" where
  "filteredScanTimeout acc =
     (case acc of (seen, s) \<Rightarrow>
        (addLog filteredScanLogs_update
           (''Filtered scan complete. Found '' @ showNat (mapSize seen) @ '' device(s).'')
           (s \<lparr> scanning := False \<rparr>))
          \<lparr> filteredScanStatus := (if mapSize seen > 0 then Pass else Fail) \<rparr>)"

text \<open>
  One scan window: the handler, then the listener on each callback of the platform in the
  order of arrival, starting from the empty map, then the timer. Without a manager the
  handler returns before it starts anything. \<open>unfilteredSeen\<close> and \<open>filteredSeen\<close> give the
  map and the state when the timer is about to fire.
\<close>

definition unfilteredSeen ::
  "(BleError option \<times> Device option) list \<Rightarrow> state \<Rightarrow> seenMap \<times> state" where
  "unfilteredSeen cbs s = fold unfilteredScanCb cbs ([], runUnfilteredScan s)"

definition unfilteredScanWindow ::
  "(BleError option \<times> Device option) list \<Rightarrow> state \<Rightarrow> state" where
  "unfilteredScanWindow cbs s =
     (case bleManagerRef s of
        None \<Rightarrow> runUnfilteredScan s
      | Some manager \<Rightarrow> unfilteredScanTimeout (unfilteredSeen cbs s))"

definition filteredSeen ::
  "(BleError option \<times> Device option) list \<Rightarrow> state \<Rightarrow> seenMap \<times> state" where
  "filteredSeen cbs s = fold filteredScanCb cbs ([], runFilteredScan s)"

definition filteredScanWindow ::
  "(BleError option \<times> Device option) list \<Rightarrow> state \<Rightarrow> state" where
  "filteredScanWindow cbs s =
     (case bleManagerRef s of
        None \<Rightarrow> runFilteredScan s
      | Some manager \<Rightarrow> filteredScanTimeout (filteredSeen cbs s))"

text \<open>
  The identifiers that the callbacks of a window deliver: a callback delivers a device when
  it reports no error and carries one. \<open>firstSeen\<close> keeps the first occurrence of each
  identifier, in order.
\<close>

definition delivered :: "(BleError option \<times> Device option) list \<Rightarrow> Device list" where
  "delivered cbs = concat (map (\<lambda>cb. case cb of (None, Some d) \<Rightarrow> [d] | _ \<Rightarrow> []) cbs)"

fun firstSeen :: "string list \<Rightarrow> string list" where
  "firstSeen [] = []"
| "firstSeen (x # xs) = x # filter (\<lambda>y. y \<noteq> x) (firstSeen xs)"

text \<open>
  The same on devices: the first advertisement of each identifier. \<open>fresh seen ds\<close> is what
  a window that starts from the map \<open>seen\<close> adds for the delivered devices \<open>ds\<close>.
\<close>

fun firstDevices :: "Device list \<Rightarrow> Device list" where
  "firstDevices [] = []"
| "firstDevices (d # ds) = d # filter (\<lambda>e. dev_id e \<noteq> dev_id d) (firstDevices ds)"

definition fresh :: "seenMap \<Rightarrow> Device list \<Rightarrow> seenMap" where
  "fresh seen ds =
     map (\<lambda>d. (dev_id d, toEntry d))
       (filter (\<lambda>d. \<not> mapHas seen (dev_id d)) (firstDevices ds))"

subsection \<open>Step 5: connect\<close>

definition runConnect :: "DiscoveredDevice \<Rightarrow> state \<Rightarrow> state" where
  "runConnect device s =
     (case bleManagerRef s of
        None \<Rightarrow> (addLog connectLogs_update ''ERROR: No BleManager'' s) \<lparr> connectStatus := Fail \<rparr>
      | Some manager \<Rightarrow>
          addLog connectLogs_update
            (''Connecting to '' @ nameOr (entry_name device) (entry_id device) @ ''...'')
            (s \<lparr> connectStatus := Running, connectLogs := [] \<rparr>))"

text \<open>
  The rest of the \<^verbatim>\<open>try\<close> after \<^verbatim>\<open>await manager.connectToDevice(...)\<close>, and its
  \<^verbatim>\<open>catch\<close>. \<^verbatim>\<open>if (error.errorCode)\<close> is false for an absent code and for 0.
\<close>

definition connectThen :: "BleError + Device \<Rightarrow> state \<Rightarrow> state" where
  "connectThen outcome s =
     (case outcome of
        Inr connected \<Rightarrow>
          (addLogs connectLogs_update
             [''Connected! MTU: '' @ showNat (dev_mtu connected),
              ''Device ID: '' @ dev_id connected,
              ''Device name: '' @ nameOr (dev_name connected) ''(null)'']
             (s \<lparr> connectedDeviceRef := Some connected \<rparr>))
            \<lparr> connectStatus := Pass \<rparr>
      | Inl error \<Rightarrow>
          (let s1 = addLog connectLogs_update (''Connection FAILED: '' @ err_message error) s;
               s2 = (case errorCode error of
                       None \<Rightarrow> s1
                     | Some c \<Rightarrow>
                         if c \<noteq> 0
                         then addLog connectLogs_update (''Error code: '' @ showInt c) s1
                         else s1)
           in s2 \<lparr> connectStatus := Fail \<rparr>))"

subsection \<open>Step 6: discover services\<close>

definition runDiscoverServices :: "state \<Rightarrow> state" where
  "runDiscoverServices s =
     (case connectedDeviceRef s of
        None \<Rightarrow>
          (addLog discoverLogs_update
             (''ERROR: No connected device '' @ emDash @ '' run Step 5 first'') s)
            \<lparr> discoverStatus := Fail \<rparr>
      | Some device \<Rightarrow>
          addLog discoverLogs_update ''Discovering all services and characteristics...''
            (s \<lparr> discoverStatus := Running, discoverLogs := [] \<rparr>))"

definition props :: "Characteristic \<Rightarrow> string list" where
  "props c =
     (if isReadable c then [''Read''] else [])
     @ (if isWritableWithResponse c then [''Write''] else [])
     @ (if isWritableWithoutResponse c then [''WriteNoResp''] else [])
     @ (if isNotifiable c then [''Notify''] else [])
     @ (if isIndicatable c then [''Indicate''] else [])"

text \<open>
  The loop over the services. \<^verbatim>\<open>await service.characteristics()\<close> may reject in the
  middle: the lines logged so far stay, and the error goes to the \<^verbatim>\<open>catch\<close>.
\<close>

fun discoverLoop :: "Service list \<Rightarrow> state \<Rightarrow> BleError option \<times> state" where
  "discoverLoop [] s = (None, s)"
| "discoverLoop (service # rest) s =
     (let s1 = addLog discoverLogs_update (CHR 0x0A # ''  Service: '' @ svc_uuid service) s
      in case characteristics service of
           Inl error \<Rightarrow> (Some error, s1)
         | Inr chars \<Rightarrow>
             discoverLoop rest
               (addLogs discoverLogs_update
                  (map (\<lambda>c. ''    Char: '' @ char_uuid c @ '' ['' @ join (props c) '', '' @ '']'')
                     chars) s1))"

definition discoverCatch :: "BleError \<Rightarrow> state \<Rightarrow> state" where
  "discoverCatch error s =
     (addLog discoverLogs_update (''Discovery FAILED: '' @ err_message error) s)
       \<lparr> discoverStatus := Fail \<rparr>"

text \<open>
  The argument is the outcome of \<^verbatim>\<open>discoverAllServicesAndCharacteristics()\<close> followed
  by \<^verbatim>\<open>services()\<close>: \<open>Inl\<close> when either rejects.
\<close>

definition discoverThen :: "BleError + Service list \<Rightarrow> state \<Rightarrow> state" where
  "discoverThen outcome s =
     (case outcome of
        Inl error \<Rightarrow> discoverCatch error s
      | Inr services \<Rightarrow>
          (case discoverLoop services
                  (addLog discoverLogs_update
                     (''Found '' @ showNat (length services) @ '' service(s):'') s) of
             (Some error, s1) \<Rightarrow> discoverCatch error s1
           | (None, s1) \<Rightarrow> s1 \<lparr> discoverStatus := Pass \<rparr>))"

subsection \<open>Disconnect\<close>

text \<open>
  The \<^verbatim>\<open>onPress\<close> of the Disconnect button. The whole body is inside the \<^verbatim>\<open>try\<close>,
  after \<^verbatim>\<open>await connectedDeviceRef.current?.cancelConnection()\<close>; the \<^verbatim>\<open>catch\<close> is
  empty. With no device in the ref nothing is called and the body runs. The argument is the
  outcome of \<^verbatim>\<open>cancelConnection()\<close>.
\<close>

definition disconnectBody :: "state \<Rightarrow> state" where
  "disconnectBody s =
     s \<lparr> connectedDeviceRef := None,
         connectStatus := Pending, connectLogs := [],
         discoverStatus := Pending, discoverLogs := [],
         validateStatus := Pending, validateLogs := [] \<rparr>"

definition disconnect :: "BleError + unit \<Rightarrow> state \<Rightarrow> state" where
  "disconnect cancelOutcome s =
     (case connectedDeviceRef s of
        None \<Rightarrow> disconnectBody s
      | Some device \<Rightarrow>
          (case cancelOutcome of
             Inl error \<Rightarrow> s
           | Inr _ \<Rightarrow> disconnectBody s))"

subsection \<open>The seven slots and their triggers\<close>

datatype stepId = Create | CheckState | UnfilteredScan | FilteredScan | Connect | Discover | Validate

fun statusOf :: "stepId \<Rightarrow> state \<Rightarrow> StepStatus" where
  "statusOf Create s = createStatus s"
| "statusOf CheckState s = stateStatus s"
| "statusOf UnfilteredScan s = scanStatus s"
| "statusOf FilteredScan s = filteredScanStatus s"
| "statusOf Connect s = connectStatus s"
| "statusOf Discover s = discoverStatus s"
| "statusOf Validate s = validateStatus s"

fun logsOf :: "stepId \<Rightarrow> state \<Rightarrow> LogEntry list" where
  "logsOf Create s = createLogs s"
| "logsOf CheckState s = stateLogs s"
| "logsOf UnfilteredScan s = scanLogs s"
| "logsOf FilteredScan s = filteredScanLogs s"
| "logsOf Connect s = connectLogs s"
| "logsOf Discover s = discoverLogs s"
| "logsOf Validate s = validateLogs s"

text \<open>
  The \<^verbatim>\<open>onPress\<close> bindings of the screen: one button per step, except Step 5, which
  is a tap on a device of either list. \<open>trigger\<close> runs what the press runs before the
  handler first suspends.
\<close>

datatype press =
    PressCreate "BleError + unit"
  | PressState
  | PressScan
  | PressFilteredScan
  | TapDevice DiscoveredDevice
  | PressDiscover
  | PressValidate

fun stepOf :: "press \<Rightarrow> stepId" where
  "stepOf (PressCreate ctor) = Create"
| "stepOf PressState = CheckState"
| "stepOf PressScan = UnfilteredScan"
| "stepOf PressFilteredScan = FilteredScan"
| "stepOf (TapDevice d) = Connect"
| "stepOf PressDiscover = Discover"
| "stepOf PressValidate = Validate"

fun trigger :: "press \<Rightarrow> state \<Rightarrow> state" where
  "trigger (PressCreate ctor) s = runCreateManager ctor s"
| "trigger PressState s = runCheckState (stateStatus s) s"
| "trigger PressScan s = runUnfilteredScan s"
| "trigger PressFilteredScan s = runFilteredScan s"
| "trigger (TapDevice d) s = runConnect d s"
| "trigger PressDiscover s = runDiscoverServices s"
| "trigger PressValidate s = runValidateChars s"

text \<open>The guard at the head of a handler: the manager for Steps 2 to 5, the device for 6 and 7.\<close>

fun admitted :: "stepId \<Rightarrow> state \<Rightarrow> bool" where
  "admitted Create s = True"
| "admitted CheckState s = (bleManagerRef s \<noteq> None)"
| "admitted UnfilteredScan s = (bleManagerRef s \<noteq> None)"
| "admitted FilteredScan s = (bleManagerRef s \<noteq> None)"
| "admitted Connect s = (bleManagerRef s \<noteq> None)"
| "admitted Discover s = (connectedDeviceRef s \<noteq> None)"
| "admitted Validate s = (connectedDeviceRef s \<noteq> None)"

text \<open>Whether some characteristic of the list has the UUID, letter case apart.\<close>

definition present :: "Characteristic list \<Rightarrow> string \<Rightarrow> bool" where
  "present chars u = (\<exists>c \<in> set chars. toUpperCase (char_uuid c) = toUpperCase u)"

subsection \<open>Example values\<close>

text \<open>A device, a characteristic and a provisioning service in lower case, as inputs of runs.\<close>

definition demoDevice :: Device where
  "demoDevice =
     \<lparr> dev_id = ''AA:BB:CC:DD:EE:FF'', dev_name = Some ''ESP32-WiFi-1234'',
       dev_localName = None, dev_rssi = Some (- 60), dev_serviceUUIDs = None,
       dev_mtu = 517 \<rparr>"

definition demoChar :: "string \<Rightarrow> Characteristic" where
  "demoChar u =
     \<lparr> char_uuid = u, isReadable = True, isWritableWithResponse = False,
       isWritableWithoutResponse = False, isNotifiable = True, isIndicatable = False \<rparr>"

definition demoChars :: "Characteristic list" where
  "demoChars =
     [demoChar ''0000ffe1-0000-1000-8000-00805f9b34fb'',
      demoChar ''0000FFE9-0000-1000-8000-00805F9B34FB'',
      demoChar ''0000FFE2-0000-1000-8000-00805F9B34FB'',
      demoChar ''0000ffE3-0000-1000-8000-00805f9b34fb'']"

definition demoService :: Service where
  "demoService =
     \<lparr> svc_uuid = ''0000ffe0-0000-1000-8000-00805f9b34fb'', characteristics = Inr demoChars \<rparr>"

definition otherDevice :: Device where
  "otherDevice =
     \<lparr> dev_id = ''11:22:33:44:55:66'', dev_name = None,
       dev_localName = Some ''Speaker'', dev_rssi = Some (- 71), dev_serviceUUIDs = None,
       dev_mtu = 23 \<rparr>"

definition demoError :: BleError where
  "demoError = \<lparr> errorCode = Some 600, err_message = ''Cannot start scanning operation'' \<rparr>"

text \<open>The state once Step 1 has passed.\<close>

definition withManager :: state where
  "withManager =
     initial \<lparr> bleManagerRef := Some 0, sharedInstance := Some 0, nextManager := 1,
       createStatus := Pass \<rparr>"

text \<open>The state once a device is connected, services were discovered and validation failed.\<close>

definition connectedState :: state where
  "connectedState =
     withManager \<lparr> connectedDeviceRef := Some demoDevice, connectStatus := Pass,
       connectLogs := [\<lparr> time = [], message = ''Connected! MTU: 517'' \<rparr>],
       discoverStatus := Pass, validateStatus := Fail \<rparr>"

section \<open>Properties\<close>

subsection \<open>Step 7\<close>

lemma addLog_validate:
  "validateStatus (addLog validateLogs_update m s) = validateStatus s"
  "validateLogs (addLog validateLogs_update m s)
     = validateLogs s @ [\<lparr> time = now s, message = m \<rparr>]"
  "now (addLog validateLogs_update m s) = now s"
  by (simp_all add: addLog_def)

lemma addLogs_validate:
  "validateStatus (addLogs validateLogs_update ms s) = validateStatus s"
  "map message (validateLogs (addLogs validateLogs_update ms s))
     = map message (validateLogs s) @ ms"
  by (induction ms arbitrary: s) (simp_all add: addLog_validate)

lemma checkExpected_fst:
  "fst (checkExpected cu exps (b, s))
     = (b \<and> (\<forall>e \<in> set exps. toUpperCase (fst e) \<in> set cu))"
  by (induction exps arbitrary: b s) (auto simp: Let_def)

lemma checkExpected_logs:
  "map message (validateLogs (snd (checkExpected cu exps (b, s))))
     = map message (validateLogs s) @ map (expLine cu) exps"
  by (induction exps arbitrary: b s) (auto simp: Let_def addLog_validate)

lemma present_iff:
  "present chars u \<longleftrightarrow> toUpperCase u \<in> set (map (\<lambda>c. toUpperCase (char_uuid c)) chars)"
  by (force simp: present_def image_iff)

lemma validateThen_status:
  assumes "find isTarget services = Some target"
    and "characteristics target = Inr chars"
  shows "validateStatus (validateThen (Inr services) s)
     = (if \<forall>e \<in> set expected. present chars (fst e) then Pass else Fail)"
  using assms
  by (simp add: validateThen_def Let_def split_beta checkExpected_fst present_iff)

lemma validateThen_logs:
  assumes "find isTarget services = Some target"
    and "characteristics target = Inr chars"
  shows "map message (validateLogs (validateThen (Inr services) s))
     = map message (validateLogs s) @ [''Service found! Checking characteristics...'']
        @ map (expLine (map (\<lambda>c. toUpperCase (char_uuid c)) chars)) expected
        @ (if filter isExtra chars = [] then []
           else (CHR 0x0A # ''Extra characteristics on this service:'')
                  # map (\<lambda>c. ''  '' @ char_uuid c) (filter isExtra chars))"
  using assms
  by (simp add: validateThen_def Let_def split_beta checkExpected_logs addLog_validate
      addLogs_validate o_def)

lemma present_filter:
  "u \<in> fst ` set expected \<Longrightarrow> present (filter (\<lambda>c. \<not> isExtra c) chars) u = present chars u"
  by (auto simp: present_def isExtra_def expectedUUIDs_def)

lemma validateRun_eq:
  "connectedDeviceRef s = Some device \<Longrightarrow>
     validateRun outcome s = validateThen outcome (runValidateChars s)"
  by (simp add: validateRun_def)

text \<open>
  C1. Step 7 runs on a state that holds a connected device; the platform lists the services,
  the first one whose UUID equals the provisioning UUID apart from letter case is the target,
  and it lists its characteristics. Then the status is Pass exactly when each of the three
  expected UUIDs is the UUID of some characteristic of the target, letter case apart, and
  it is Fail otherwise. Characteristics that are none of the three do not count: two
  targets that differ only in such extras get the same status. For each expected UUID the
  log has its line, with FOUND when it is there and MISSING when it is not.
\<close>

theorem validate_pass_iff_expected_present:
  assumes dev: "connectedDeviceRef s = Some device"
    and tgt: "find isTarget services = Some target"
    and chs: "characteristics target = Inr chars"
  shows "(validateStatus (validateRun (Inr services) s) = Pass \<longleftrightarrow>
            present chars STATUS_CHAR_UUID \<and> present chars COMMAND_CHAR_UUID
              \<and> present chars RESPONSE_CHAR_UUID)
       \<and> (validateStatus (validateRun (Inr services) s) \<noteq> Pass \<longrightarrow>
            validateStatus (validateRun (Inr services) s) = Fail)
       \<and> (\<forall>services' target' chars'.
            find isTarget services' = Some target' \<longrightarrow>
            characteristics target' = Inr chars' \<longrightarrow>
            filter (\<lambda>c. \<not> isExtra c) chars' = filter (\<lambda>c. \<not> isExtra c) chars \<longrightarrow>
            validateStatus (validateRun (Inr services') s)
              = validateStatus (validateRun (Inr services) s))
       \<and> (\<forall>e \<in> set expected.
            (''  '' @ (if present chars (fst e) then ''FOUND'' else ''MISSING'') @ '': ''
               @ snd e @ '' ('' @ fst e @ '')'')
              \<in> set (map message (validateLogs (validateRun (Inr services) s))))"
proof -
  let ?r = "validateRun (Inr services) s"
  have st: "validateStatus ?r
      = (if \<forall>e \<in> set expected. present chars (fst e) then Pass else Fail)"
    using validateThen_status [OF tgt chs] by (simp add: validateRun_eq [OF dev])
  have iff: "validateStatus ?r = Pass \<longleftrightarrow>
      present chars STATUS_CHAR_UUID \<and> present chars COMMAND_CHAR_UUID
        \<and> present chars RESPONSE_CHAR_UUID"
    by (simp add: st expected_def)
  have pf: "validateStatus ?r \<noteq> Pass \<longrightarrow> validateStatus ?r = Fail"
    by (simp add: st)
  have ext: "validateStatus (validateRun (Inr services') s) = validateStatus ?r"
    if t': "find isTarget services' = Some target'"
      and c': "characteristics target' = Inr chars'"
      and f: "filter (\<lambda>c. \<not> isExtra c) chars' = filter (\<lambda>c. \<not> isExtra c) chars"
    for services' target' chars'
  proof -
    have "present chars' (fst e) = present chars (fst e)" if "e \<in> set expected" for e
      using present_filter [of "fst e" chars'] present_filter [of "fst e" chars] that f
      by simp
    then have "(\<forall>e \<in> set expected. present chars' (fst e))
        = (\<forall>e \<in> set expected. present chars (fst e))"
      by simp
    then show ?thesis
      using validateThen_status [OF t' c'] st by (simp add: validateRun_eq [OF dev])
  qed
  have lg: "(''  '' @ (if present chars (fst e) then ''FOUND'' else ''MISSING'') @ '': ''
               @ snd e @ '' ('' @ fst e @ '')'') \<in> set (map message (validateLogs ?r))"
    if "e \<in> set expected" for e
  proof -
    have "expLine (map (\<lambda>c. toUpperCase (char_uuid c)) chars) e
        \<in> set (map message (validateLogs ?r))"
      using that validateThen_logs [OF tgt chs, of "runValidateChars s"]
      by (simp add: validateRun_eq [OF dev])
    then show ?thesis by (simp add: expLine_def present_iff)
  qed
  show ?thesis using iff pf ext lg by blast
qed

theorem validate_pass_iff_expected_present_witness:
  "connectedDeviceRef (initial \<lparr> connectedDeviceRef := Some demoDevice \<rparr>) = Some demoDevice
   \<and> find isTarget [demoService] = Some demoService
   \<and> characteristics demoService = Inr demoChars
   \<and> validateStatus
        (validateRun (Inr [demoService]) (initial \<lparr> connectedDeviceRef := Some demoDevice \<rparr>))
       = Pass"
proof -
  have h1: "connectedDeviceRef (initial \<lparr> connectedDeviceRef := Some demoDevice \<rparr>)
      = Some demoDevice"
    by simp
  have h2: "find isTarget [demoService] = Some demoService"
    by code_simp
  have h3: "characteristics demoService = Inr demoChars"
    by (simp add: demoService_def)
  have p: "present demoChars STATUS_CHAR_UUID \<and> present demoChars COMMAND_CHAR_UUID
      \<and> present demoChars RESPONSE_CHAR_UUID"
    by code_simp
  from validate_pass_iff_expected_present [OF h1 h2 h3] p h1 h2 h3 show ?thesis
    by blast
qed

subsection \<open>Steps 3 and 4\<close>

lemma mapSet_absent: "\<not> mapHas seen k \<Longrightarrow> mapSet k v seen = seen @ [(k, v)]"
  by (induction seen) (auto simp: mapHas_def)

lemma firstSeen_set: "set (firstSeen xs) = set xs"
  by (induction xs) auto

lemma firstSeen_distinct: "distinct (firstSeen xs)"
  by (induction xs) (auto simp: firstSeen_set)

lemma remdups_snoc: "remdups (ys @ [x]) = filter (\<lambda>y. y \<noteq> x) (remdups ys) @ [x]"
  by (induction ys) auto

lemma firstSeen_remdups: "firstSeen xs = rev (remdups (rev xs))"
  by (induction xs) (simp_all add: remdups_snoc rev_filter)

lemma firstDevices_ids: "map dev_id (firstDevices ds) = firstSeen (map dev_id ds)"
proof (induction ds)
  case Nil
  show ?case by simp
next
  case (Cons d ds)
  have "filter (\<lambda>y. y \<noteq> dev_id d) (map dev_id (firstDevices ds))
      = map dev_id (filter (\<lambda>e. dev_id e \<noteq> dev_id d) (firstDevices ds))"
    by (simp add: filter_map comp_def)
  with Cons.IH show ?case by simp
qed

lemma delivered_Cons:
  "delivered (cb # cbs) = (case cb of (None, Some d) \<Rightarrow> [d] | _ \<Rightarrow> []) @ delivered cbs"
  by (simp add: delivered_def)

lemma delivered_Nil: "delivered [] = []"
  by (simp add: delivered_def)

lemma filter_fresh_step:
  "filter (\<lambda>e. \<not> mapHas (seen @ [(k, v)]) (dev_id e)) ds
   = filter (\<lambda>e. dev_id e \<noteq> k \<and> \<not> mapHas seen (dev_id e)) ds"
  by (rule filter_cong) (auto simp: mapHas_def)

lemma filter_fresh_has:
  "mapHas seen k \<Longrightarrow>
   filter (\<lambda>e. dev_id e \<noteq> k \<and> \<not> mapHas seen (dev_id e)) ds
   = filter (\<lambda>e. \<not> mapHas seen (dev_id e)) ds"
  by (rule filter_cong) (auto simp: mapHas_def)

lemma fold_seen:
  assumes err: "\<And>e d seen s. fst (cb (Some e, d) (seen, s)) = seen"
    and empty: "\<And>seen s. fst (cb (None, None) (seen, s)) = seen"
    and dup: "\<And>seen dev s. mapHas seen (dev_id dev) \<Longrightarrow> fst (cb (None, Some dev) (seen, s)) = seen"
    and new: "\<And>seen dev s. \<not> mapHas seen (dev_id dev) \<Longrightarrow>
                fst (cb (None, Some dev) (seen, s)) = seen @ [(dev_id dev, toEntry dev)]"
  shows "fst (fold cb cbs (seen, s)) = seen @ fresh seen (delivered cbs)"
proof (induction cbs arbitrary: seen s)
  case Nil
  show ?case by (simp add: delivered_Nil fresh_def)
next
  case (Cons x cbs)
  obtain e d where x: "x = (e, d)" by (cases x)
  obtain seen1 s1 where st: "cb x (seen, s) = (seen1, s1)"
    by (cases "cb x (seen, s)")
  have IH: "fst (fold cb (x # cbs) (seen, s)) = seen1 @ fresh seen1 (delivered cbs)"
    using Cons.IH [of seen1 s1] st by simp
  show ?case
  proof (cases e)
    case (Some e')
    then have "seen1 = seen" using err [of e' d seen s] st x by simp
    then show ?thesis using IH x Some by (simp add: delivered_Cons)
  next
    case None
    note e = this
    show ?thesis
    proof (cases d)
      case None
      then have "seen1 = seen" using empty [of seen s] st x e by simp
      then show ?thesis using IH x e None by (simp add: delivered_Cons)
    next
      case (Some dev)
      show ?thesis
      proof (cases "mapHas seen (dev_id dev)")
        case True
        then have "seen1 = seen" using dup [of seen dev s] st x e Some by simp
        then show ?thesis using IH x e Some True
          by (simp add: delivered_Cons fresh_def filter_fresh_has)
      next
        case False
        then have "seen1 = seen @ [(dev_id dev, toEntry dev)]"
          using new [of seen dev s] st x e Some by simp
        then show ?thesis using IH x e Some False
          by (simp add: delivered_Cons fresh_def filter_fresh_step)
      qed
    qed
  qed
qed

lemma unfiltered_fold_seen:
  "fst (fold unfilteredScanCb cbs (seen, s)) = seen @ fresh seen (delivered cbs)"
  by (rule fold_seen) (simp_all add: unfilteredScanCb_def Let_def mapSet_absent)

lemma filtered_fold_seen:
  "fst (fold filteredScanCb cbs (seen, s)) = seen @ fresh seen (delivered cbs)"
  by (rule fold_seen) (simp_all add: filteredScanCb_def Let_def mapSet_absent)

lemma fresh_Nil: "fresh [] ds = map (\<lambda>d. (dev_id d, toEntry d)) (firstDevices ds)"
  by (simp add: fresh_def mapHas_def)

lemma unfilteredScanCb_devices:
  "devices s = mapValues seen \<Longrightarrow>
   devices (snd (unfilteredScanCb x (seen, s))) = mapValues (fst (unfilteredScanCb x (seen, s)))"
  by (simp add: unfilteredScanCb_def Let_def addLog_def split: option.splits)

lemma filteredScanCb_devices:
  "filteredDevices s = mapValues seen \<Longrightarrow>
   filteredDevices (snd (filteredScanCb x (seen, s))) = mapValues (fst (filteredScanCb x (seen, s)))"
  by (simp add: filteredScanCb_def Let_def addLog_def split: option.splits)

lemma unfiltered_fold_devices:
  "devices s = mapValues seen \<Longrightarrow>
   devices (snd (fold unfilteredScanCb cbs (seen, s)))
     = mapValues (fst (fold unfilteredScanCb cbs (seen, s)))"
proof (induction cbs arbitrary: seen s)
  case Nil
  then show ?case by simp
next
  case (Cons x cbs)
  obtain seen1 s1 where st: "unfilteredScanCb x (seen, s) = (seen1, s1)"
    by (cases "unfilteredScanCb x (seen, s)")
  have "devices s1 = mapValues seen1"
    using unfilteredScanCb_devices [OF Cons.prems, of x] st by simp
  from Cons.IH [OF this] st show ?case by simp
qed

lemma filtered_fold_devices:
  "filteredDevices s = mapValues seen \<Longrightarrow>
   filteredDevices (snd (fold filteredScanCb cbs (seen, s)))
     = mapValues (fst (fold filteredScanCb cbs (seen, s)))"
proof (induction cbs arbitrary: seen s)
  case Nil
  then show ?case by simp
next
  case (Cons x cbs)
  obtain seen1 s1 where st: "filteredScanCb x (seen, s) = (seen1, s1)"
    by (cases "filteredScanCb x (seen, s)")
  have "filteredDevices s1 = mapValues seen1"
    using filteredScanCb_devices [OF Cons.prems, of x] st by simp
  from Cons.IH [OF this] st show ?case by simp
qed

lemma unfilteredSeen_fst:
  "fst (unfilteredSeen cbs s) = map (\<lambda>d. (dev_id d, toEntry d)) (firstDevices (delivered cbs))"
  by (simp add: unfilteredSeen_def unfiltered_fold_seen fresh_Nil)

lemma filteredSeen_fst:
  "fst (filteredSeen cbs s) = map (\<lambda>d. (dev_id d, toEntry d)) (firstDevices (delivered cbs))"
  by (simp add: filteredSeen_def filtered_fold_seen fresh_Nil)

lemma unfilteredSeen_devices:
  "bleManagerRef s = Some manager \<Longrightarrow>
   devices (snd (unfilteredSeen cbs s)) = mapValues (fst (unfilteredSeen cbs s))"
  unfolding unfilteredSeen_def
  by (rule unfiltered_fold_devices) (simp add: runUnfilteredScan_def addLog_def mapValues_def)

lemma filteredSeen_devices:
  "bleManagerRef s = Some manager \<Longrightarrow>
   filteredDevices (snd (filteredSeen cbs s)) = mapValues (fst (filteredSeen cbs s))"
  unfolding filteredSeen_def
  by (rule filtered_fold_devices) (simp add: runFilteredScan_def addLog_def mapValues_def)

lemma unfilteredScanTimeout_facts:
  "devices (unfilteredScanTimeout (seen, s)) = devices s"
  "scanStatus (unfilteredScanTimeout (seen, s)) = (if seen \<noteq> [] then Pass else Fail)"
  "map message (scanLogs (unfilteredScanTimeout (seen, s)))
     = map message (scanLogs s)
       @ [''Scan complete. Found '' @ showNat (length seen) @ '' device(s).'',
          ''ESP32 devices (name starts with '' @ [CHR 0x22] @ DEVICE_NAME_PREFIX
             @ [CHR 0x22] @ ''): '' @ showNat (length (filter isEsp (map snd seen)))]"
  by (simp_all add: unfilteredScanTimeout_def Let_def addLog_def mapSize_def mapValues_def)

lemma filteredScanTimeout_facts:
  "filteredDevices (filteredScanTimeout (seen, s)) = filteredDevices s"
  "filteredScanStatus (filteredScanTimeout (seen, s)) = (if seen \<noteq> [] then Pass else Fail)"
  "map message (filteredScanLogs (filteredScanTimeout (seen, s)))
     = map message (filteredScanLogs s)
       @ [''Filtered scan complete. Found '' @ showNat (length seen) @ '' device(s).'']"
  by (simp_all add: filteredScanTimeout_def Let_def addLog_def mapSize_def)

lemma firstDevices_length:
  "length (firstDevices ds) = card (dev_id ` set ds)"
proof -
  have "length (firstDevices ds) = length (map dev_id (firstDevices ds))" by simp
  also have "\<dots> = card (set (firstSeen (map dev_id ds)))"
    by (simp only: firstDevices_ids distinct_card [OF firstSeen_distinct])
  finally show ?thesis by (simp add: firstSeen_set)
qed

text \<open>
  C6. In a scan window of Step 3 or Step 4 that starts with a manager, whatever the
  callbacks are, the keys of the map at the end of the window, and the identifiers of the
  displayed list, are the identifiers of the delivered devices, each once, in the order in
  which each was first seen: the list is distinct, its set is the set of delivered
  identifiers, and it is the delivered list with later repetitions struck out. The count in
  the closing log line is the number of distinct identifiers.
\<close>

theorem scan_window_ids_exact:
  assumes mgr: "bleManagerRef s = Some manager"
  shows "map fst (fst (unfilteredSeen cbs s)) = firstSeen (map dev_id (delivered cbs))
       \<and> map entry_id (devices (unfilteredScanWindow cbs s)) = firstSeen (map dev_id (delivered cbs))
       \<and> map fst (fst (filteredSeen cbs s)) = firstSeen (map dev_id (delivered cbs))
       \<and> map entry_id (filteredDevices (filteredScanWindow cbs s))
            = firstSeen (map dev_id (delivered cbs))
       \<and> distinct (firstSeen (map dev_id (delivered cbs)))
       \<and> set (firstSeen (map dev_id (delivered cbs))) = dev_id ` set (delivered cbs)
       \<and> firstSeen (map dev_id (delivered cbs)) = rev (remdups (rev (map dev_id (delivered cbs))))
       \<and> (''Scan complete. Found '' @ showNat (card (dev_id ` set (delivered cbs))) @ '' device(s).'')
            \<in> set (map message (scanLogs (unfilteredScanWindow cbs s)))
       \<and> (''Filtered scan complete. Found '' @ showNat (card (dev_id ` set (delivered cbs)))
             @ '' device(s).'')
            \<in> set (map message (filteredScanLogs (filteredScanWindow cbs s)))"
proof -
  let ?ids = "firstSeen (map dev_id (delivered cbs))"
  have ids: "map fst (map (\<lambda>d. (dev_id d, toEntry d)) (firstDevices (delivered cbs))) = ?ids"
    by (simp add: o_def firstDevices_ids)
  have eids: "map entry_id (map snd (map (\<lambda>d. (dev_id d, toEntry d)) (firstDevices (delivered cbs)))) = ?ids"
    by (simp add: o_def toEntry_def firstDevices_ids)
  have u1: "map fst (fst (unfilteredSeen cbs s)) = ?ids"
    by (simp only: unfilteredSeen_fst ids)
  have f1: "map fst (fst (filteredSeen cbs s)) = ?ids"
    by (simp only: filteredSeen_fst ids)
  obtain us ss where us: "unfilteredSeen cbs s = (us, ss)" by (cases "unfilteredSeen cbs s")
  obtain fs fss where fs: "filteredSeen cbs s = (fs, fss)" by (cases "filteredSeen cbs s")
  have usv: "us = map (\<lambda>d. (dev_id d, toEntry d)) (firstDevices (delivered cbs))"
    using unfilteredSeen_fst [of cbs s] us by simp
  have fsv: "fs = map (\<lambda>d. (dev_id d, toEntry d)) (firstDevices (delivered cbs))"
    using filteredSeen_fst [of cbs s] fs by simp
  have u2: "map entry_id (devices (unfilteredScanWindow cbs s)) = ?ids"
    using unfilteredSeen_devices [OF mgr, of cbs] us usv eids
    by (simp add: unfilteredScanWindow_def mgr unfilteredScanTimeout_facts mapValues_def)
  have f2: "map entry_id (filteredDevices (filteredScanWindow cbs s)) = ?ids"
    using filteredSeen_devices [OF mgr, of cbs] fs fsv eids
    by (simp add: filteredScanWindow_def mgr filteredScanTimeout_facts mapValues_def)
  have u3: "(''Scan complete. Found '' @ showNat (card (dev_id ` set (delivered cbs))) @ '' device(s).'')
            \<in> set (map message (scanLogs (unfilteredScanWindow cbs s)))"
    using us usv
    by (simp add: unfilteredScanWindow_def mgr unfilteredScanTimeout_facts firstDevices_length)
  have f3: "(''Filtered scan complete. Found '' @ showNat (card (dev_id ` set (delivered cbs)))
             @ '' device(s).'')
            \<in> set (map message (filteredScanLogs (filteredScanWindow cbs s)))"
    using fs fsv
    by (simp add: filteredScanWindow_def mgr filteredScanTimeout_facts firstDevices_length)
  have d: "distinct ?ids" by (rule firstSeen_distinct)
  have st: "set ?ids = dev_id ` set (delivered cbs)" by (simp add: firstSeen_set)
  have r: "?ids = rev (remdups (rev (map dev_id (delivered cbs))))" by (rule firstSeen_remdups)
  from u1 u2 f1 f2 d st r u3 f3 show ?thesis by blast
qed

theorem scan_window_ids_exact_witness:
  "bleManagerRef withManager = Some 0
   \<and> map entry_id (devices (unfilteredScanWindow
        [(None, Some demoDevice), (None, Some otherDevice),
         (None, Some (demoDevice \<lparr> dev_rssi := Some (- 40) \<rparr>)), (Some demoError, None)]
        withManager))
     = [''AA:BB:CC:DD:EE:FF'', ''11:22:33:44:55:66'']"
proof -
  have h: "bleManagerRef withManager = Some 0"
    by (simp add: withManager_def)
  have "firstSeen (map dev_id (delivered
        [(None, Some demoDevice), (None, Some otherDevice),
         (None, Some (demoDevice \<lparr> dev_rssi := Some (- 40) \<rparr>)), (Some demoError, None)]))
     = [''AA:BB:CC:DD:EE:FF'', ''11:22:33:44:55:66'']"
    by (simp add: delivered_def demoDevice_def otherDevice_def)
  with scan_window_ids_exact [OF h] h show ?thesis
    by simp
qed

lemma delivered_nonempty:
  "\<forall>cb \<in> set cbs. fst cb = None \<Longrightarrow> (delivered cbs \<noteq> []) = (\<exists>cb \<in> set cbs. snd cb \<noteq> None)"
  by (induction cbs) (auto simp: delivered_Nil delivered_Cons split: option.splits)

lemma firstDevices_empty: "(firstDevices ds = []) = (ds = [])"
  by (cases ds) simp_all

lemma showNat_0: "showNat 0 = ''0''"
  by (simp add: showNat.simps digit_def)

text \<open>
  C7. In a window where no callback reports an error, the final status of Step 3 and of
  Step 4 is Pass when some callback carried a device and Fail otherwise. When the filtered
  scan sees no device, its list is empty, it ends Fail, and its last log line reports
  0 device(s).
\<close>

theorem scan_status_error_free:
  assumes mgr: "bleManagerRef s = Some manager"
    and ok: "\<forall>cb \<in> set cbs. fst cb = None"
  shows "scanStatus (unfilteredScanWindow cbs s)
           = (if \<exists>cb \<in> set cbs. snd cb \<noteq> None then Pass else Fail)
       \<and> filteredScanStatus (filteredScanWindow cbs s)
           = (if \<exists>cb \<in> set cbs. snd cb \<noteq> None then Pass else Fail)
       \<and> ((\<forall>cb \<in> set cbs. snd cb = None) \<longrightarrow>
            filteredDevices (filteredScanWindow cbs s) = []
            \<and> filteredScanStatus (filteredScanWindow cbs s) = Fail
            \<and> message (last (filteredScanLogs (filteredScanWindow cbs s)))
                = ''Filtered scan complete. Found 0 device(s).'')"
proof -
  obtain us ss where us: "unfilteredSeen cbs s = (us, ss)" by (cases "unfilteredSeen cbs s")
  obtain fs fss where fs: "filteredSeen cbs s = (fs, fss)" by (cases "filteredSeen cbs s")
  have usv: "us = map (\<lambda>d. (dev_id d, toEntry d)) (firstDevices (delivered cbs))"
    using unfilteredSeen_fst [of cbs s] us by simp
  have fsv: "fs = map (\<lambda>d. (dev_id d, toEntry d)) (firstDevices (delivered cbs))"
    using filteredSeen_fst [of cbs s] fs by simp
  have u: "scanStatus (unfilteredScanWindow cbs s)
      = (if \<exists>cb \<in> set cbs. snd cb \<noteq> None then Pass else Fail)"
    using us usv delivered_nonempty [OF ok]
    by (simp add: unfilteredScanWindow_def mgr unfilteredScanTimeout_facts firstDevices_empty)
  have f: "filteredScanStatus (filteredScanWindow cbs s)
      = (if \<exists>cb \<in> set cbs. snd cb \<noteq> None then Pass else Fail)"
    using fs fsv delivered_nonempty [OF ok]
    by (simp add: filteredScanWindow_def mgr filteredScanTimeout_facts firstDevices_empty)
  have z: "filteredDevices (filteredScanWindow cbs s) = []
      \<and> filteredScanStatus (filteredScanWindow cbs s) = Fail
      \<and> message (last (filteredScanLogs (filteredScanWindow cbs s)))
          = ''Filtered scan complete. Found 0 device(s).''"
    if none: "\<forall>cb \<in> set cbs. snd cb = None"
  proof -
    have d: "delivered cbs = []" using delivered_nonempty [OF ok] none by simp
    have fs0: "fs = []" using fsv d by simp
    have dv: "filteredDevices fss = []"
      using filteredSeen_devices [OF mgr, of cbs] fs fs0 by (simp add: mapValues_def)
    have lg: "message (last (filteredScanLogs (filteredScanTimeout ([], fss))))
        = ''Filtered scan complete. Found 0 device(s).''"
      by (simp add: filteredScanTimeout_def addLog_def mapSize_def showNat_0)
    show ?thesis using f none dv lg fs fs0
      by (simp add: filteredScanWindow_def mgr filteredScanTimeout_facts)
  qed
  show ?thesis using u f z by blast
qed

theorem scan_status_error_free_witness:
  "bleManagerRef withManager = Some 0
   \<and> scanStatus (unfilteredScanWindow [(None, Some demoDevice), (None, None)] withManager) = Pass
   \<and> filteredScanStatus (filteredScanWindow [] withManager) = Fail
   \<and> message (last (filteredScanLogs (filteredScanWindow [] withManager)))
        = ''Filtered scan complete. Found 0 device(s).''"
proof -
  have h: "bleManagerRef withManager = Some 0"
    by (simp add: withManager_def)
  have a: "\<forall>cb \<in> set [(None, Some demoDevice), (None, None)]. fst cb = None"
    by simp
  have b: "\<forall>cb \<in> set ([] :: (BleError option \<times> Device option) list). fst cb = None"
    by simp
  from scan_status_error_free [OF h a] scan_status_error_free [OF h b] h show ?thesis
    by simp
qed

text \<open>
  C3. A window in which a device is seen and then a callback reports an error: right after
  the error the status is Fail, and when the timer fires the status becomes Pass, in
  Step 3 and in Step 4 alike. The listener returns on an error without stopping the scan or
  the timer, and the timer sets the status from the size of the map alone.
\<close>

theorem scan_error_overridden_at_window_end:
  "scanStatus (snd (unfilteredSeen [(None, Some demoDevice), (Some demoError, None)] withManager))
     = Fail
   \<and> scanStatus (unfilteredScanWindow [(None, Some demoDevice), (Some demoError, None)] withManager)
     = Pass
   \<and> filteredScanStatus
       (snd (filteredSeen [(None, Some demoDevice), (Some demoError, None)] withManager)) = Fail
   \<and> filteredScanStatus
       (filteredScanWindow [(None, Some demoDevice), (Some demoError, None)] withManager) = Pass"
  by (simp add: unfilteredScanWindow_def unfilteredSeen_def filteredScanWindow_def filteredSeen_def
      withManager_def initial_def runUnfilteredScan_def runFilteredScan_def
      unfilteredScanCb_def filteredScanCb_def unfilteredScanTimeout_def filteredScanTimeout_def
      addLog_def Let_def mapHas_def mapSize_def demoDevice_def)

lemma delivered_append: "delivered (xs @ ys) = delivered xs @ delivered ys"
  by (simp add: delivered_def)

lemma fold_has:
  assumes "\<And>seen s. fst (fold cb (pre @ (None, Some d) # mid) (seen, s))
              = seen @ fresh seen (delivered (pre @ (None, Some d) # mid))"
  shows "mapHas (fst (fold cb (pre @ (None, Some d) # mid) ([], s))) (dev_id d)"
proof -
  have "map fst (fst (fold cb (pre @ (None, Some d) # mid) ([], s)))
      = firstSeen (map dev_id (delivered (pre @ (None, Some d) # mid)))"
    by (simp only: assms append_Nil fresh_Nil) (simp add: o_def firstDevices_ids)
  moreover have "dev_id d \<in> set (map dev_id (delivered (pre @ (None, Some d) # mid)))"
    by (simp add: delivered_append delivered_Cons)
  ultimately show ?thesis by (simp add: mapHas_def firstSeen_set)
qed

lemma fold_skip:
  assumes has: "mapHas (fst (fold cb front init)) (dev_id d')"
    and dup: "\<And>seen dev s. mapHas seen (dev_id dev) \<Longrightarrow> cb (None, Some dev) (seen, s) = (seen, s)"
  shows "fold cb (front @ (None, Some d') # post) init = fold cb (front @ post) init"
proof -
  obtain seen1 s1 where st: "fold cb front init = (seen1, s1)"
    by (cases "fold cb front init")
  have "cb (None, Some d') (seen1, s1) = (seen1, s1)"
    using has st by (simp add: dup)
  then show ?thesis by (simp add: st)
qed

lemma fold_later_duplicate:
  assumes seen: "\<And>cbs seen s. fst (fold cb cbs (seen, s)) = seen @ fresh seen (delivered cbs)"
    and dup: "\<And>seen dev s. mapHas seen (dev_id dev) \<Longrightarrow> cb (None, Some dev) (seen, s) = (seen, s)"
    and same: "dev_id d' = dev_id d"
  shows "fold cb (pre @ (None, Some d) # mid @ (None, Some d') # post) ([], s)
       = fold cb (pre @ (None, Some d) # mid @ post) ([], s)"
proof -
  have has: "mapHas (fst (fold cb (pre @ (None, Some d) # mid) ([], s))) (dev_id d')"
    using fold_has [of cb pre d mid s, OF seen] same by simp
  have "fold cb ((pre @ (None, Some d) # mid) @ (None, Some d') # post) ([], s)
      = fold cb ((pre @ (None, Some d) # mid) @ post) ([], s)"
    using has dup by (rule fold_skip)
  then show ?thesis by simp
qed

text \<open>
  C10. Once the map has an identifier, the listener of either scan does nothing on a device
  with that identifier: the map (so the stored name, signal strength and service UUIDs of
  the first advertisement), the log and the displayed list stay as they are. Hence a window
  with a later repetition of an identifier ends in the same map and the same state as the
  window without it.
\<close>

theorem duplicate_advertisement_noop:
  "(mapHas seen (dev_id device) \<longrightarrow>
      unfilteredScanCb (None, Some device) (seen, s) = (seen, s)
      \<and> filteredScanCb (None, Some device) (seen, s) = (seen, s))
   \<and> (dev_id d' = dev_id d \<longrightarrow>
      unfilteredSeen (pre @ (None, Some d) # mid @ (None, Some d') # post) s
        = unfilteredSeen (pre @ (None, Some d) # mid @ post) s
      \<and> filteredSeen (pre @ (None, Some d) # mid @ (None, Some d') # post) s
        = filteredSeen (pre @ (None, Some d) # mid @ post) s
      \<and> unfilteredScanWindow (pre @ (None, Some d) # mid @ (None, Some d') # post) s
        = unfilteredScanWindow (pre @ (None, Some d) # mid @ post) s
      \<and> filteredScanWindow (pre @ (None, Some d) # mid @ (None, Some d') # post) s
        = filteredScanWindow (pre @ (None, Some d) # mid @ post) s)"
proof -
  have a: "unfilteredScanCb (None, Some dev) (seen, s) = (seen, s)"
    if "mapHas seen (dev_id dev)" for seen dev s
    using that by (simp add: unfilteredScanCb_def)
  have b: "filteredScanCb (None, Some dev) (seen, s) = (seen, s)"
    if "mapHas seen (dev_id dev)" for seen dev s
    using that by (simp add: filteredScanCb_def)
  have u: "unfilteredSeen (pre @ (None, Some d) # mid @ (None, Some d') # post) s
        = unfilteredSeen (pre @ (None, Some d) # mid @ post) s" if "dev_id d' = dev_id d"
    unfolding unfilteredSeen_def
    by (rule fold_later_duplicate [OF unfiltered_fold_seen a that])
  have f: "filteredSeen (pre @ (None, Some d) # mid @ (None, Some d') # post) s
        = filteredSeen (pre @ (None, Some d) # mid @ post) s" if "dev_id d' = dev_id d"
    unfolding filteredSeen_def
    by (rule fold_later_duplicate [OF filtered_fold_seen b that])
  have uw: "unfilteredScanWindow (pre @ (None, Some d) # mid @ (None, Some d') # post) s
        = unfilteredScanWindow (pre @ (None, Some d) # mid @ post) s" if "dev_id d' = dev_id d"
    by (simp only: unfilteredScanWindow_def u [OF that])
  have fw: "filteredScanWindow (pre @ (None, Some d) # mid @ (None, Some d') # post) s
        = filteredScanWindow (pre @ (None, Some d) # mid @ post) s" if "dev_id d' = dev_id d"
    by (simp only: filteredScanWindow_def f [OF that])
  show ?thesis using a b u f uw fw by blast
qed

theorem duplicate_advertisement_noop_witness:
  "mapHas [(''AA:BB:CC:DD:EE:FF'', toEntry demoDevice)]
      (dev_id (demoDevice \<lparr> dev_rssi := Some (- 40), dev_name := Some ''renamed'' \<rparr>))
   \<and> unfilteredScanCb (None, Some (demoDevice \<lparr> dev_rssi := Some (- 40), dev_name := Some ''renamed'' \<rparr>))
        ([(''AA:BB:CC:DD:EE:FF'', toEntry demoDevice)], withManager)
       = ([(''AA:BB:CC:DD:EE:FF'', toEntry demoDevice)], withManager)
   \<and> dev_id (demoDevice \<lparr> dev_rssi := Some (- 40), dev_name := Some ''renamed'' \<rparr>) = dev_id demoDevice
   \<and> unfilteredScanWindow
        ([] @ (None, Some demoDevice) # [(None, Some otherDevice)]
           @ (None, Some (demoDevice \<lparr> dev_rssi := Some (- 40), dev_name := Some ''renamed'' \<rparr>)) # [])
        withManager
       = unfilteredScanWindow
           ([] @ (None, Some demoDevice) # [(None, Some otherDevice)] @ []) withManager"
proof -
  have h1: "mapHas [(''AA:BB:CC:DD:EE:FF'', toEntry demoDevice)]
      (dev_id (demoDevice \<lparr> dev_rssi := Some (- 40), dev_name := Some ''renamed'' \<rparr>))"
    by (simp add: mapHas_def demoDevice_def)
  have h2: "dev_id (demoDevice \<lparr> dev_rssi := Some (- 40), dev_name := Some ''renamed'' \<rparr>)
      = dev_id demoDevice"
    by simp
  from duplicate_advertisement_noop
         [of "[(''AA:BB:CC:DD:EE:FF'', toEntry demoDevice)]"
             "demoDevice \<lparr> dev_rssi := Some (- 40), dev_name := Some ''renamed'' \<rparr>"
             withManager
             "demoDevice \<lparr> dev_rssi := Some (- 40), dev_name := Some ''renamed'' \<rparr>"
             demoDevice "[]" "[(None, Some otherDevice)]" "[]"]
       h1 h2
  show ?thesis by blast
qed

subsection \<open>Step 2\<close>


lemma runCheckState_subs:
  "subs (runCheckState c s) = subs s" "removeCalls (runCheckState c s) = removeCalls s"
  "nextSub (runCheckState c s) = nextSub s"
  by (simp_all add: runCheckState_def addLog_def split: option.splits)

lemma stateThen_subs:
  "subs (stateThen c st s) = (if st = PoweredOn then subs s else subs s @ [nextSub s])"
  "removeCalls (stateThen c st s) = removeCalls s"
  "nextSub (stateThen c st s) = (if st = PoweredOn then nextSub s else Suc (nextSub s))"
  by (simp_all add: stateThen_def addLog_def Let_def)

lemma stateChangeCb_subs:
  "subs (stateChangeCb sub st s) = (if st = PoweredOn then removeAll sub (subs s) else subs s)"
  "removeCalls (stateChangeCb sub st s) = (if st = PoweredOn then removeCalls s @ [sub] else removeCalls s)"
  "nextSub (stateChangeCb sub st s) = nextSub s"
  "st = PoweredOn \<Longrightarrow> stateStatus (stateChangeCb sub st s) = Pass"
  by (simp_all add: stateChangeCb_def remove_def addLog_def Let_def)

lemma step_inv:
  assumes "subsInv s" and "\<not> isTimeout ev"
  shows "subsInv (step ev s)"
proof (cases ev)
  case PressCheckState
  then show ?thesis using assms by (simp add: subsInv_def runCheckState_subs)
next
  case (StateResolved q st)
  then show ?thesis using assms
    by (auto simp: subsInv_def stateThen_subs less_Suc_eq split: option.splits)
next
  case (StateChanged sub st)
  then show ?thesis using assms
    by (auto simp: subsInv_def stateChangeCb_subs distinct_removeAll)
next
  case (TimeoutFired sub)
  then show ?thesis using assms by (simp add: isTimeout_def)
qed

lemma run_inv:
  "subsInv s \<Longrightarrow> \<forall>ev \<in> set evs. \<not> isTimeout ev \<Longrightarrow> subsInv (run evs s)"
  unfolding run_def
  by (induction evs arbitrary: s) (simp_all add: step_inv)


lemma step_press_subs:
  "subs (step PressCheckState s) = subs s \<and> removeCalls (step PressCheckState s) = removeCalls s"
  by (simp add: runCheckState_subs)

lemma step_resolved_subs:
  "set (subs s) \<subseteq> set (subs (step (StateResolved q st) s))
   \<and> removeCalls (step (StateResolved q st) s) = removeCalls s"
  by (auto simp: stateThen_subs split: option.splits)

text \<open>
  C2, as amended. A state-change subscription made by Step 2 is released when its listener
  observes PoweredOn: it is no longer active, \<^verbatim>\<open>remove()\<close> was called on it once more,
  and the status is Pass. Any other state leaves the subscriptions as they are. Pressing
  the button again releases nothing, and the continuation of the state query only adds a
  subscription: those still pending from earlier presses stay active beside the new one.
  In a history where no timer fires, no subscription is released twice and none is both
  active and released.
\<close>

theorem state_subscription_released_on_powered_on:
  "(sub \<in> set (subs s) \<longrightarrow>
      sub \<notin> set (subs (step (StateChanged sub PoweredOn) s))
      \<and> removeCalls (step (StateChanged sub PoweredOn) s) = removeCalls s @ [sub]
      \<and> stateStatus (step (StateChanged sub PoweredOn) s) = Pass)
   \<and> (st \<noteq> PoweredOn \<longrightarrow>
      subs (step (StateChanged sub st) s) = subs s
      \<and> removeCalls (step (StateChanged sub st) s) = removeCalls s)
   \<and> subs (step PressCheckState s) = subs s
   \<and> removeCalls (step PressCheckState s) = removeCalls s
   \<and> set (subs s) \<subseteq> set (subs (step (StateResolved q st) s))
   \<and> removeCalls (step (StateResolved q st) s) = removeCalls s
   \<and> (subsInv s \<and> (\<forall>ev \<in> set evs. \<not> isTimeout ev) \<longrightarrow>
      distinct (removeCalls (run evs s))
      \<and> set (subs (run evs s)) \<inter> set (removeCalls (run evs s)) = {})"
proof -
  have a: "sub \<notin> set (subs (step (StateChanged sub PoweredOn) s))
      \<and> removeCalls (step (StateChanged sub PoweredOn) s) = removeCalls s @ [sub]
      \<and> stateStatus (step (StateChanged sub PoweredOn) s) = Pass" if "sub \<in> set (subs s)"
    using that by (simp add: stateChangeCb_subs)
  have b: "subs (step (StateChanged sub st) s) = subs s
      \<and> removeCalls (step (StateChanged sub st) s) = removeCalls s" if "st \<noteq> PoweredOn"
    using that by (simp add: stateChangeCb_subs)
  have c: "distinct (removeCalls (run evs s))
      \<and> set (subs (run evs s)) \<inter> set (removeCalls (run evs s)) = {}"
    if "subsInv s" and "\<forall>ev \<in> set evs. \<not> isTimeout ev"
    using run_inv [OF that] by (simp add: subsInv_def)
  show ?thesis using a b c step_press_subs [of s] step_resolved_subs [of s q st] by blast
qed

lemmas step2_defs = run_def withManager_def initial_def runCheckState_def stateThen_def
  stateChangeCb_def stateTimeout_def remove_def addLog_def Let_def

theorem state_subscription_released_on_powered_on_witness:
  "0 \<in> set (subs (run [PressCheckState, StateResolved 0 PoweredOff] withManager))
   \<and> 0 \<notin> set (subs (step (StateChanged 0 PoweredOn)
                   (run [PressCheckState, StateResolved 0 PoweredOff] withManager)))
   \<and> PoweredOff \<noteq> PoweredOn
   \<and> subs (step (StateChanged 0 PoweredOff)
             (run [PressCheckState, StateResolved 0 PoweredOff] withManager))
       = subs (run [PressCheckState, StateResolved 0 PoweredOff] withManager)
   \<and> distinct (removeCalls
        (run [PressCheckState, StateResolved 0 PoweredOff, StateChanged 0 PoweredOn] withManager))"
proof -
  have h1: "0 \<in> set (subs (run [PressCheckState, StateResolved 0 PoweredOff] withManager))"
    by (simp add: step2_defs)
  have h2: "PoweredOff \<noteq> PoweredOn" by simp
  have h3: "subsInv withManager"
    by (simp add: subsInv_def withManager_def initial_def)
  have h4: "\<forall>ev \<in> set [PressCheckState, StateResolved 0 PoweredOff, StateChanged 0 PoweredOn].
      \<not> isTimeout ev"
    by (simp add: isTimeout_def)
  from state_subscription_released_on_powered_on
         [of 0 "run [PressCheckState, StateResolved 0 PoweredOff] withManager" PoweredOff]
       h1 h2
  have p1: "0 \<notin> set (subs (step (StateChanged 0 PoweredOn)
                   (run [PressCheckState, StateResolved 0 PoweredOff] withManager)))
      \<and> subs (step (StateChanged 0 PoweredOff)
             (run [PressCheckState, StateResolved 0 PoweredOff] withManager))
       = subs (run [PressCheckState, StateResolved 0 PoweredOff] withManager)"
    by blast
  from state_subscription_released_on_powered_on
         [of _ withManager _ _ "[PressCheckState, StateResolved 0 PoweredOff, StateChanged 0 PoweredOn]"]
       h3 h4
  have p2: "distinct (removeCalls
        (run [PressCheckState, StateResolved 0 PoweredOff, StateChanged 0 PoweredOn] withManager))"
    by blast
  from h1 h2 p1 p2 show ?thesis by blast
qed

text \<open>
  C2, as stated, fails. The adapter is off; Step 2 is pressed, subscribes, is pressed again
  and subscribes again: two subscriptions are active and none was released.
\<close>

theorem reinvoked_state_check_keeps_old_subscription:
  "subs (run [PressCheckState, StateResolved 0 PoweredOff,
              PressCheckState, StateResolved 1 PoweredOff] withManager) = [0, 1]
   \<and> removeCalls (run [PressCheckState, StateResolved 0 PoweredOff,
                       PressCheckState, StateResolved 1 PoweredOff] withManager) = []
   \<and> \<not> length (subs (run [PressCheckState, StateResolved 0 PoweredOff,
                           PressCheckState, StateResolved 1 PoweredOff] withManager)) \<le> 1"
  by (simp add: step2_defs)

text \<open>
  C5. Step 2 runs from status Pending with the adapter off, and the timer fires with
  PoweredOn never observed. The closure of the timer compares the \<^verbatim>\<open>stateStatus\<close> of
  the render that made the callback, which is Pending, with \<^verbatim>\<open>'running'\<close>: the body
  is skipped. The status stays Running, no timeout line is logged and the subscription
  stays active.
\<close>

theorem state_timeout_does_not_fire:
  "stateStatus (run [PressCheckState, StateResolved 0 PoweredOff, TimeoutFired 0] withManager)
     = Running
   \<and> subs (run [PressCheckState, StateResolved 0 PoweredOff, TimeoutFired 0] withManager) = [0]
   \<and> removeCalls (run [PressCheckState, StateResolved 0 PoweredOff, TimeoutFired 0] withManager)
       = []
   \<and> ''Timed out waiting for PoweredOn''
       \<notin> set (map message
            (stateLogs (run [PressCheckState, StateResolved 0 PoweredOff, TimeoutFired 0]
               withManager)))"
  by (simp add: step2_defs)

subsection \<open>Disconnect, Step 1 and the frame of a trigger\<close>

text \<open>
  C4, as amended. When Disconnect is pressed and the cancel succeeds, or the ref holds no
  device, the ref is cleared and Steps 5, 6 and 7 are Pending with empty logs. When the
  cancel fails, the failure is absorbed and nothing changes at all: the ref, the statuses
  and the logs are as before.
\<close>

theorem disconnect_resets_unless_cancel_fails:
  "((connectedDeviceRef s = None \<or> cancelOutcome = Inr ()) \<longrightarrow>
      connectedDeviceRef (disconnect cancelOutcome s) = None
      \<and> (\<forall>k \<in> {Connect, Discover, Validate}.
            statusOf k (disconnect cancelOutcome s) = Pending
            \<and> logsOf k (disconnect cancelOutcome s) = []))
   \<and> (connectedDeviceRef s \<noteq> None \<longrightarrow> disconnect (Inl error) s = s)"
  by (auto simp: disconnect_def disconnectBody_def split: option.splits sum.splits)

theorem disconnect_resets_unless_cancel_fails_witness:
  "connectedDeviceRef (disconnect (Inr ()) connectedState) = None
   \<and> Connect \<in> {Connect, Discover, Validate}
   \<and> statusOf Connect (disconnect (Inr ()) connectedState) = Pending
   \<and> logsOf Connect (disconnect (Inr ()) connectedState) = []
   \<and> connectedDeviceRef connectedState \<noteq> None
   \<and> disconnect (Inl demoError) connectedState = connectedState"
proof -
  have h1: "connectedDeviceRef connectedState = None \<or> (Inr () :: BleError + unit) = Inr ()"
    by simp
  have h2: "Connect \<in> {Connect, Discover, Validate}"
    by simp
  have h3: "connectedDeviceRef connectedState \<noteq> None"
    by (simp add: connectedState_def)
  from disconnect_resets_unless_cancel_fails [of connectedState "Inr ()" demoError] h1 h2 h3
  show ?thesis by blast
qed

text \<open>
  C4, as stated, fails. With a device connected and a cancel that rejects, the ref still
  holds the device, Step 5 is still Pass with its log, and Step 7 keeps its status.
\<close>

theorem disconnect_cancel_failure_keeps_connection:
  "connectedDeviceRef (disconnect (Inl demoError) connectedState) = Some demoDevice
   \<and> connectStatus (disconnect (Inl demoError) connectedState) = Pass
   \<and> connectLogs (disconnect (Inl demoError) connectedState) \<noteq> []
   \<and> validateStatus (disconnect (Inl demoError) connectedState) = Fail"
  by (simp add: disconnect_def connectedState_def)

text \<open>
  C8. Step 1 runs while the ref holds instance 0. \<^verbatim>\<open>destroy()\<close> is called and not
  awaited, and the constructor is called in the same synchronous run, while the teardown
  of instance 0 is pending: no new instance is made, the constructor returns instance 0,
  the ref holds it again and the step is Pass. When the teardown completes, the ref holds
  a destroyed instance. Had the teardown completed before the constructor ran, the ref
  would hold the new instance 1.
\<close>

theorem recreate_does_not_wait_for_teardown:
  "tearingDown (runCreateManager (Inr ()) withManager) = [0]
   \<and> bleManagerRef (runCreateManager (Inr ()) withManager) = Some 0
   \<and> nextManager (runCreateManager (Inr ()) withManager) = 1
   \<and> createStatus (runCreateManager (Inr ()) withManager) = Pass
   \<and> bleManagerRef (destroyResolved 0 (runCreateManager (Inr ()) withManager)) = Some 0
   \<and> destroyed (destroyResolved 0 (runCreateManager (Inr ()) withManager)) = [0]
   \<and> bleManagerRef
        (runCreateManager (Inr ())
           (destroyResolved 0 ((destroy 0 withManager) \<lparr> bleManagerRef := None \<rparr>)))
       = Some 1"
  by (simp add: runCreateManager_def newBleManager_def destroy_def destroyResolved_def
      withManager_def initial_def addLog_def Let_def)

lemma trigger_frame:
  "j \<noteq> stepOf p \<Longrightarrow> statusOf j (trigger p s) = statusOf j s \<and> logsOf j (trigger p s) = logsOf j s"
  by (cases p; cases j)
     (simp_all add: runCreateManager_def newBleManager_def destroy_def runCheckState_def runUnfilteredScan_def
        runFilteredScan_def runConnect_def runDiscoverServices_def runValidateChars_def
        addLog_def Let_def split: option.splits sum.splits)

lemma trigger_reset:
  "admitted (stepOf p) s \<Longrightarrow> admitted (stepOf p) s' \<Longrightarrow>
     statusOf (stepOf p) (trigger p s) = statusOf (stepOf p) (trigger p s')
     \<and> map message (logsOf (stepOf p) (trigger p s))
         = map message (logsOf (stepOf p) (trigger p s'))"
  by (cases p)
     (auto simp: runCreateManager_def newBleManager_def destroy_def runCheckState_def runUnfilteredScan_def
        runFilteredScan_def runConnect_def runDiscoverServices_def runValidateChars_def
        addLog_def Let_def split: option.splits sum.splits)

lemma trigger_running:
  "admitted (stepOf p) s \<Longrightarrow> stepOf p \<noteq> Create \<Longrightarrow>
     statusOf (stepOf p) (trigger p s) = Running
     \<and> length (logsOf (stepOf p) (trigger p s)) = 1"
  by (cases p)
     (auto simp: runCheckState_def runUnfilteredScan_def
        runFilteredScan_def runConnect_def runDiscoverServices_def runValidateChars_def
        addLog_def Let_def split: option.splits sum.splits)

lemma trigger_refused:
  "\<not> admitted (stepOf p) s \<Longrightarrow>
     statusOf (stepOf p) (trigger p s) = Fail
     \<and> (\<exists>line. logsOf (stepOf p) (trigger p s) = logsOf (stepOf p) s @ [line])"
  by (cases p)
     (auto simp: runCheckState_def runUnfilteredScan_def
        runFilteredScan_def runConnect_def runDiscoverServices_def runValidateChars_def
        addLog_def Let_def split: option.splits sum.splits)

lemma disconnect_frame:
  "j \<in> {Create, CheckState, UnfilteredScan, FilteredScan} \<Longrightarrow>
     statusOf j (disconnect c s) = statusOf j s \<and> logsOf j (disconnect c s) = logsOf j s"
  by (auto simp: disconnect_def disconnectBody_def split: option.splits sum.splits)

text \<open>
  C9, as amended. Triggering a step changes no other step's status or log. When the guard
  of the step admits it, the step resets its own slot: the status and the log lines after
  the trigger do not depend on what the slot held, and for Steps 2 to 7 they are Running
  and one line. When the guard refuses, the step sets its own status to Fail and appends
  one line to the log it had. Disconnect leaves Steps 1 to 4 as they are.
\<close>

theorem trigger_changes_own_slot_only:
  "(\<forall>j. j \<noteq> stepOf p \<longrightarrow>
       statusOf j (trigger p s) = statusOf j s \<and> logsOf j (trigger p s) = logsOf j s)
   \<and> (admitted (stepOf p) s \<and> admitted (stepOf p) s' \<longrightarrow>
       statusOf (stepOf p) (trigger p s) = statusOf (stepOf p) (trigger p s')
       \<and> map message (logsOf (stepOf p) (trigger p s))
           = map message (logsOf (stepOf p) (trigger p s')))
   \<and> (admitted (stepOf p) s \<and> stepOf p \<noteq> Create \<longrightarrow>
       statusOf (stepOf p) (trigger p s) = Running
       \<and> length (logsOf (stepOf p) (trigger p s)) = 1)
   \<and> (\<not> admitted (stepOf p) s \<longrightarrow>
       statusOf (stepOf p) (trigger p s) = Fail
       \<and> (\<exists>line. logsOf (stepOf p) (trigger p s) = logsOf (stepOf p) s @ [line]))
   \<and> (\<forall>j \<in> {Create, CheckState, UnfilteredScan, FilteredScan}.
       statusOf j (disconnect c s) = statusOf j s \<and> logsOf j (disconnect c s) = logsOf j s)"
  using trigger_frame [of _ p s] trigger_reset [of p s s'] trigger_running [of p s]
    trigger_refused [of p s] disconnect_frame [of _ c s]
  by blast

theorem trigger_changes_own_slot_only_witness:
  "Connect \<noteq> stepOf PressScan
   \<and> statusOf Connect (trigger PressScan connectedState) = statusOf Connect connectedState
   \<and> logsOf Connect (trigger PressScan connectedState) = logsOf Connect connectedState
   \<and> admitted (stepOf PressScan) connectedState \<and> admitted (stepOf PressScan) withManager
   \<and> stepOf PressScan \<noteq> Create
   \<and> statusOf UnfilteredScan (trigger PressScan connectedState) = Running
   \<and> statusOf UnfilteredScan (trigger PressScan connectedState)
       = statusOf UnfilteredScan (trigger PressScan withManager)
   \<and> \<not> admitted (stepOf PressValidate) withManager
   \<and> statusOf Validate (trigger PressValidate withManager) = Fail
   \<and> CheckState \<in> {Create, CheckState, UnfilteredScan, FilteredScan}
   \<and> statusOf CheckState (disconnect (Inr ()) connectedState) = statusOf CheckState connectedState"
proof -
  have h1: "Connect \<noteq> stepOf PressScan" by simp
  have h2: "admitted (stepOf PressScan) connectedState \<and> admitted (stepOf PressScan) withManager"
    by (simp add: connectedState_def withManager_def)
  have h3: "stepOf PressScan \<noteq> Create" by simp
  have h4: "\<not> admitted (stepOf PressValidate) withManager"
    by (simp add: withManager_def initial_def)
  have h5: "CheckState \<in> {Create, CheckState, UnfilteredScan, FilteredScan}" by simp
  have a: "stepOf PressScan = UnfilteredScan" "stepOf PressValidate = Validate" by simp_all
  from trigger_changes_own_slot_only [of PressScan connectedState withManager "Inr ()"]
    trigger_changes_own_slot_only [of PressValidate withManager withManager "Inr ()"]
    h1 h2 h3 h4 h5
  show ?thesis unfolding a by blast
qed

text \<open>
  C9, as stated, fails. The constructor threw, so there is no manager. Step 2 is triggered:
  one error line. Triggered again, its log has two: the slot was not reset, and triggering
  is not idempotent.
\<close>

theorem refused_trigger_appends_to_old_log:
  "bleManagerRef (trigger (PressCreate (Inl demoError)) initial) = None
   \<and> map message (logsOf CheckState
        (trigger PressState (trigger (PressCreate (Inl demoError)) initial)))
       = [''ERROR: No BleManager '' @ emDash @ '' run Step 1 first'']
   \<and> map message (logsOf CheckState
        (trigger PressState (trigger PressState (trigger (PressCreate (Inl demoError)) initial))))
       = [''ERROR: No BleManager '' @ emDash @ '' run Step 1 first'',
          ''ERROR: No BleManager '' @ emDash @ '' run Step 1 first'']"
  by (simp add: runCreateManager_def newBleManager_def runCheckState_def initial_def
      addLog_def Let_def)

end
